theory Spec2Isabelle
  imports Complex_Main "HOL-Library.Signed_Division"
begin

section \<open>Grid indices and boxes\<close>

text \<open>
  An \<open>Index<NDIM>\<close> is a vector of NDIM C++ \<open>int\<close>s, modelled as a list of integers of
  length NDIM.  A \<open>Box<NDIM>\<close> is a pair of indices, its lower and upper corner, both
  inclusive.  A C++ \<open>int\<close> is a 32-bit two's complement word.  The model keeps the
  values as integers and writes the wrap-around out where the operands are not bounded by
  the extent of a grid: the sums of the per-process DOF counts and what is computed from
  them (\<open>int32\<close> below).  Offsets of grid indices and counters of stencil points are
  written without it.
\<close>

type_synonym Index = "int list"

record Box =
  lower :: Index
  upper :: Index

text \<open>\<open>Box::contains(idx)\<close>: every component of the index lies between the corners.\<close>

definition box_contains :: "Box \<Rightarrow> Index \<Rightarrow> bool" where
  "box_contains b idx =
     list_all (\<lambda>(lo, p, hi). lo \<le> p \<and> p \<le> hi) (zip (lower b) (zip idx (upper b)))"

section \<open>Failures\<close>

text \<open>
  \<open>TBOX_ERROR\<close> and a failed \<open>TBOX_ASSERT\<close> abort the run with a message (\<open>Abort\<close>).
  Reading a \<open>std::vector\<close> or a SAMRAI \<open>Array\<close> past its end is undefined behaviour in
  C++; the model makes it the outcome \<open>OutOfBounds\<close> at the first such access.  An
  integer division by zero is \<open>DivideByZero\<close>.
\<close>

datatype error = Abort string | OutOfBounds | DivideByZero

section \<open>The coarse-fine boundary containment helper\<close>

text \<open>
  \<^verbatim>\<open>
  bool contains_idx = false;
  int n_cf_bdry_boxes = static_cast<int>(cf_bdry_boxes.size());
  for (int k = 0; !contains_idx || k < n_cf_bdry_boxes; ++k)
      contains_idx = contains_idx || cf_bdry_boxes[k].contains(idx);
  return contains_idx;
  \<close>
  The loop state is the counter \<open>k\<close> and the flag \<open>contains_idx\<close>.  The body's \<open>||\<close>
  short-circuits: the vector is read only while the flag is still false.
\<close>

function is_cf_bdry_idx_loop :: "Index \<Rightarrow> Box list \<Rightarrow> nat \<Rightarrow> bool \<Rightarrow> error + bool" where
  "is_cf_bdry_idx_loop idx cf_bdry_boxes k contains_idx =
     (if \<not> contains_idx \<or> k < length cf_bdry_boxes then
        (if contains_idx then is_cf_bdry_idx_loop idx cf_bdry_boxes (k + 1) True
         else if k < length cf_bdry_boxes then
           is_cf_bdry_idx_loop idx cf_bdry_boxes (k + 1) (box_contains (cf_bdry_boxes ! k) idx)
         else Inl OutOfBounds)
      else Inr contains_idx)"
  by pat_completeness auto
termination
  by (relation "measure (\<lambda>(idx, cf_bdry_boxes, k, contains_idx). length cf_bdry_boxes - k)") auto

definition is_cf_bdry_idx :: "Index \<Rightarrow> Box list \<Rightarrow> error + bool" where
  "is_cf_bdry_idx idx cf_bdry_boxes = is_cf_bdry_idx_loop idx cf_bdry_boxes 0 False"

declare is_cf_bdry_idx_loop.simps [simp del]

section \<open>The DOF partition\<close>

text \<open>
  \<^verbatim>\<open>
  const int mpi_rank = SAMRAI_MPI::getRank();
  const int n_local = num_dofs_per_proc[mpi_rank];
  const int i_lower = std::accumulate(num_dofs_per_proc.begin(),
                                      num_dofs_per_proc.begin() + mpi_rank, 0);
  const int i_upper = i_lower + n_local;
  const int n_total = std::accumulate(num_dofs_per_proc.begin(), num_dofs_per_proc.end(), 0);
  \<close>
  Every assembler starts with these lines.  \<open>std::accumulate\<close> with the \<open>int\<close> initial
  value 0 is a left fold of \<open>+\<close> on \<open>int\<close>.  \<open>int32 x\<close> is the value the machine holds
  after computing \<open>x\<close> in an \<open>int\<close>: the two's complement reading of the low 32 bits.
  (Signed overflow is undefined behaviour in C++; the model gives it the result of the
  machine's addition.)  The rank is a parameter; reading the count of a rank beyond the
  vector is \<open>OutOfBounds\<close>.
\<close>

definition int32 :: "int \<Rightarrow> int" where
  "int32 x = (x + 2 ^ 31) mod 2 ^ 32 - 2 ^ 31"

definition accumulate :: "int list \<Rightarrow> int" where
  "accumulate xs = foldl (\<lambda>a b. int32 (a + b)) 0 xs"

record index_ranges =
  n_local :: int
  i_lower :: int
  i_upper :: int
  n_total :: int

definition determine_index_ranges :: "int list \<Rightarrow> nat \<Rightarrow> error + index_ranges" where
  "determine_index_ranges num_dofs_per_proc mpi_rank =
     (if mpi_rank < length num_dofs_per_proc then
        (let n_local = num_dofs_per_proc ! mpi_rank;
             i_lower = accumulate (take mpi_rank num_dofs_per_proc);
             i_upper = int32 (i_lower + n_local);
             n_total = accumulate num_dofs_per_proc
         in Inr \<lparr>n_local = n_local, i_lower = i_lower, i_upper = i_upper, n_total = n_total\<rparr>)
      else Inl OutOfBounds)"

text \<open>The DOF numbers process \<open>r\<close> owns: the half-open range from \<open>i_lower\<close> to \<open>i_upper\<close>.\<close>

definition ownership_range :: "int list \<Rightarrow> nat \<Rightarrow> int set" where
  "ownership_range num_dofs_per_proc r =
     (case determine_index_ranges num_dofs_per_proc r of
        Inr R \<Rightarrow> {i_lower R ..< i_upper R}
      | Inl e \<Rightarrow> {})"

section \<open>Sequencing fallible steps\<close>

text \<open>
  A step that can fail returns \<open>error + 'a\<close>.  \<open>bind\<close> runs the next step on success and
  stops at the first failure, as an abort stops the call; \<open>foldM\<close> is a loop threading a
  state, \<open>mapM\<close> a loop collecting results.
\<close>

definition bind :: "error + 'a \<Rightarrow> ('a \<Rightarrow> error + 'b) \<Rightarrow> error + 'b" where
  "bind m f = (case m of Inl e \<Rightarrow> Inl e | Inr x \<Rightarrow> f x)"

fun foldM :: "('s \<Rightarrow> 'a \<Rightarrow> error + 's) \<Rightarrow> 's \<Rightarrow> 'a list \<Rightarrow> error + 's" where
  "foldM f s [] = Inr s"
| "foldM f s (x # xs) = bind (f s x) (\<lambda>s'. foldM f s' xs)"

fun mapM :: "('a \<Rightarrow> error + 'b) \<Rightarrow> 'a list \<Rightarrow> error + 'b list" where
  "mapM f [] = Inr []"
| "mapM f (x # xs) = bind (f x) (\<lambda>y. bind (mapM f xs) (\<lambda>ys. Inr (y # ys)))"

text \<open>A checked read of position \<open>i\<close> of a vector.\<close>

definition read_at :: "'a list \<Rightarrow> nat \<Rightarrow> error + 'a" where
  "read_at xs i = (if i < length xs then Inr (xs ! i) else Inl OutOfBounds)"

text \<open>
  \<open>TBOX_ASSERT(c)\<close> sits inside \<open>#if !defined(NDEBUG)\<close>: it aborts when the condition
  fails and assertions are compiled in, and is no code at all when \<open>NDEBUG\<close> is defined.
\<close>

definition TBOX_ASSERT :: "bool \<Rightarrow> bool \<Rightarrow> error + unit" where
  "TBOX_ASSERT ndebug c = (if \<not> ndebug \<and> \<not> c then Inl (Abort ''Failed assertion'') else Inr ())"

section \<open>Boxes, box iteration and patch data\<close>

text \<open>
  \<open>Box::Iterator\<close> visits every index of a box, the first coordinate running fastest.
  \<open>Box::grow(n)\<close> moves the lower corner down and the upper corner up by \<open>n\<close> in every
  direction.  \<open>SideGeometry::toSideBox(box, axis)\<close> is the box of the sides normal to
  \<open>axis\<close>: the upper corner is one larger along \<open>axis\<close>.
\<close>

fun box_indices :: "Index \<Rightarrow> Index \<Rightarrow> Index list" where
  "box_indices [] [] = [[]]"
| "box_indices (l # ls) (u # us) =
     concat (map (\<lambda>rest. map (\<lambda>x. x # rest) [l..u]) (box_indices ls us))"
| "box_indices _ _ = []"

definition box_iterator :: "Box \<Rightarrow> Index list" where
  "box_iterator b = box_indices (lower b) (upper b)"

definition grow :: "Box \<Rightarrow> int \<Rightarrow> Box" where
  "grow b n = \<lparr>lower = map (\<lambda>x. x - n) (lower b), upper = map (\<lambda>x. x + n) (upper b)\<rparr>"

definition toSideBox :: "Box \<Rightarrow> nat \<Rightarrow> Box" where
  "toSideBox b axis = \<lparr>lower = lower b, upper = (upper b)[axis := upper b ! axis + 1]\<rparr>"

text \<open>\<open>Box::contains(box)\<close>: both corners of the other box lie in this one.\<close>

definition box_contains_box :: "Box \<Rightarrow> Box \<Rightarrow> bool" where
  "box_contains_box b c = (box_contains b (lower c) \<and> box_contains b (upper c))"

text \<open>
  Patch data (\<open>CellData<NDIM,int>\<close>, \<open>SideData<NDIM,int>\<close>) is an array over the ghost
  box of the patch with \<open>depth\<close> components per location.  Cell data is indexed by
  (index, component), side data by (axis, index, component).  A read outside the ghost
  box or beyond the depth leaves the array: \<open>OutOfBounds\<close>.
\<close>

record 'a PatchData =
  ghost_box :: Box
  depth :: nat
  array :: 'a

type_synonym CellData = "(Index \<Rightarrow> nat \<Rightarrow> int) PatchData"
type_synonym SideData = "(nat \<Rightarrow> Index \<Rightarrow> nat \<Rightarrow> int) PatchData"

definition cell_read :: "CellData \<Rightarrow> Index \<Rightarrow> nat \<Rightarrow> error + int" where
  "cell_read data i d =
     (if box_contains (ghost_box data) i \<and> d < depth data then Inr (array data i d)
      else Inl OutOfBounds)"

definition side_read :: "SideData \<Rightarrow> nat \<Rightarrow> Index \<Rightarrow> nat \<Rightarrow> error + int" where
  "side_read data axis i d =
     (if box_contains (toSideBox (ghost_box data) axis) i \<and> d < depth data
      then Inr (array data axis i d)
      else Inl OutOfBounds)"

section \<open>The scattered-point interpolation assembler\<close>

text \<open>
  \<open>constructPatchLevelSCInterpOp\<close>.  Doubles are modelled by the rational numbers they
  denote, without rounding.  The inputs that come from collaborators are parameters:
  \<^item> \<open>ndebug\<close>: whether \<open>NDEBUG\<close> is defined; \<open>NDIM\<close>: the space dimension;
  \<^item> \<open>getCellIndex\<close>: \<open>IndexUtilities::getCellIndex\<close> with the grid extents applied,
    the index of the cell containing a point;
  \<^item> \<open>interp_fcn r\<close>: the contents of the weight buffer after the kernel call
    \<open>interp_fcn(r, w)\<close>;
  \<^item> \<open>X_arr\<close>, \<open>X_lower\<close>: the local part of \<open>X_vec\<close> and the first row it owns;
  \<^item> the level: grid geometry, physical domain, the box tree's overlap search and the
    side-centred DOF index data of each patch.
\<close>

record InterpLevel =
  x_lower :: "rat list"
  dx0 :: "rat list"
  level_ratio :: "int list"
  physical_domain :: "Box list"
  findOverlapIndices :: "Box \<Rightarrow> nat list"
  patch_dof_index_data :: "SideData list"

record MatAIJ =
  d_nnz :: "int list"
  o_nnz :: "int list"
  mat_rows :: "(int \<times> int list \<times> rat list) list"

text \<open>Line 408: \<open>if (interp_stencil % 2 != 0) interp_stencil += 1;\<close>\<close>

definition round_interp_stencil :: "int \<Rightarrow> int" where
  "round_interp_stencil interp_stencil =
     (if interp_stencil smod 2 \<noteq> 0 then interp_stencil + 1 else interp_stencil)"

text \<open>
  Lines 478-489: the search for a patch whose box overlaps the cell of the point.
  \<^verbatim>\<open>
  Box<NDIM> box(X_idx, X_idx);
  Array<int> patch_num_arr;
  patch_level->getBoxTree()->findOverlapIndices(patch_num_arr, box);
  if (patch_num_arr.size() == 0)
  {
      box.grow(IntVector<NDIM>(1));
      patch_level->getBoxTree()->findOverlapIndices(patch_num_arr, box);
  #if !defined(NDEBUG)
      TBOX_ASSERT(patch_num_arr.size() != 0);
  #endif
  }
  patch_num[k] = patch_num_arr[0];
  \<close>
  The function returns the boxes it searched, in order, next to its outcome.
\<close>

definition find_patch :: "bool \<Rightarrow> (Box \<Rightarrow> nat list) \<Rightarrow> Index \<Rightarrow> Box list \<times> (error + nat)" where
  "find_patch ndebug find_overlap X_idx =
     (let box = \<lparr>lower = X_idx, upper = X_idx\<rparr>;
          patch_num_arr = find_overlap box
      in if length patch_num_arr = 0 then
           (let box' = grow box 1;
                patch_num_arr' = find_overlap box'
            in ([box, box'],
                bind (TBOX_ASSERT ndebug (length patch_num_arr' \<noteq> 0)) (\<lambda>_.
                  read_at patch_num_arr' 0)))
         else ([box], read_at patch_num_arr 0))"

text \<open>Lines 507-527: the stencil box of one axis component of one point.\<close>

definition stencil_box_axis :: "nat \<Rightarrow> int \<Rightarrow> Index \<Rightarrow> rat list \<Rightarrow> rat list \<Rightarrow> nat \<Rightarrow> Box" where
  "stencil_box_axis NDIM interp_stencil X_idx X X_cell axis =
     \<lparr>lower = map (\<lambda>d. if d = axis then X_idx ! d - interp_stencil sdiv 2 + 1
                        else if X ! d \<le> X_cell ! d then X_idx ! d - interp_stencil sdiv 2
                        else X_idx ! d - interp_stencil sdiv 2 + 1) [0..<NDIM],
      upper = map (\<lambda>d. if d = axis then X_idx ! d + interp_stencil sdiv 2
                        else if X ! d \<le> X_cell ! d then X_idx ! d + interp_stencil sdiv 2 - 1
                        else X_idx ! d + interp_stencil sdiv 2) [0..<NDIM]\<rparr>"

text \<open>
  Lines 532-545: the nonzero counts of one row, over the stencil box.  A DOF index in
  \<open>[j_lower, j_upper)\<close> counts as local, any other as remote.
\<close>

definition count_dof :: "index_ranges \<Rightarrow> int \<times> int \<Rightarrow> int \<Rightarrow> int \<times> int" where
  "count_dof R c dof_index =
     (if dof_index \<ge> i_lower R \<and> dof_index < i_upper R then (fst c + 1, snd c)
      else (fst c, snd c + 1))"

definition clamp_counts :: "index_ranges \<Rightarrow> int \<times> int \<Rightarrow> int \<times> int" where
  "clamp_counts R c =
     (min (n_local R) (fst c), min (int32 (n_total R - n_local R)) (snd c))"

definition odd_stencil_error :: error where
  "odd_stencil_error = Abort (''PETScMatUtilities::constructPatchLevelSCInterpOp(): support ''
     @ ''for odd stencil sizes not currently implemented'')"

definition interp_count_axis ::
  "bool \<Rightarrow> nat \<Rightarrow> int \<Rightarrow> index_ranges \<Rightarrow> SideData \<Rightarrow> Index \<Rightarrow> rat list \<Rightarrow> rat list \<Rightarrow> nat
   \<Rightarrow> error + (Box \<times> int \<times> int)" where
  "interp_count_axis ndebug NDIM interp_stencil R dof_index_data X_idx X X_cell axis =
     (if interp_stencil smod 2 \<noteq> 0 then Inl odd_stencil_error
      else
        (let stencil_box = stencil_box_axis NDIM interp_stencil X_idx X X_cell axis in
         bind (TBOX_ASSERT ndebug
                 (box_contains_box (toSideBox (ghost_box dof_index_data) axis) stencil_box)) (\<lambda>_.
         bind (foldM (\<lambda>c b. bind (side_read dof_index_data axis b 0) (\<lambda>dof_index.
                               Inr (count_dof R c dof_index)))
                     (0, 0) (box_iterator stencil_box)) (\<lambda>c.
         Inr (stencil_box, clamp_counts R c)))))"

text \<open>
  Lines 460-547, the body for point \<open>k\<close>: cell index, cell centre, patch search, then the
  stencil box and the counts of each axis.  The result is the patch number, the stencil
  boxes and the counts of the NDIM rows of the point.
\<close>

definition cell_centre :: "nat \<Rightarrow> InterpLevel \<Rightarrow> rat list \<Rightarrow> Index \<Rightarrow> Index \<Rightarrow> rat list" where
  "cell_centre NDIM level dx domain_lower X_idx =
     map (\<lambda>d. (of_int (X_idx ! d - domain_lower ! d) + 1 / 2) * dx ! d + x_lower level ! d)
         [0..<NDIM]"

definition interp_count_point ::
  "bool \<Rightarrow> nat \<Rightarrow> (rat list \<Rightarrow> Index) \<Rightarrow> int \<Rightarrow> index_ranges \<Rightarrow> InterpLevel \<Rightarrow> rat list
   \<Rightarrow> Index \<Rightarrow> rat list \<Rightarrow> nat \<Rightarrow> error + (nat \<times> (Box \<times> int \<times> int) list)" where
  "interp_count_point ndebug NDIM getCellIndex interp_stencil R level dx domain_lower X_arr k =
     (let X = take NDIM (drop (NDIM * k) X_arr);
          X_idx = getCellIndex X;
          X_cell = cell_centre NDIM level dx domain_lower X_idx
      in bind (snd (find_patch ndebug (findOverlapIndices level) X_idx)) (\<lambda>patch_num.
         bind (read_at (patch_dof_index_data level) patch_num) (\<lambda>dof_index_data.
         bind (TBOX_ASSERT ndebug (depth dof_index_data = 1)) (\<lambda>_.
         bind (mapM (interp_count_axis ndebug NDIM interp_stencil R dof_index_data X_idx X X_cell)
                    [0..<NDIM]) (\<lambda>axes.
         Inr (patch_num, axes))))))"

text \<open>
  Lines 574-608, the body for one axis of point \<open>k\<close>: the one-dimensional weights of each
  direction, then one coefficient and one column per index of the stencil box.
  \<^verbatim>\<open>
  for (int d = 0; d < NDIM; ++d)
  {
      const int i = stencil_box_lower(d);
      const double X_stencil_lower =
          (static_cast<double>(i - domain_lower(d)) + (d == axis ? 0.0 : 0.5)) * dx[d] + x_lower[d];
      interp_fcn((X[d] - X_stencil_lower) / dx[d], &w[d][0]);
  }
  std::fill(stencil_box_vals.begin(), stencil_box_vals.end(), 1.0);
  for (Box<NDIM>::Iterator b(stencil_box_axis); b; b++, ++stencil_idx)
  {
      const SideIndex<NDIM> i(b(), axis, SideIndex<NDIM>::Lower);
      for (int d = 0; d < NDIM; ++d)
          stencil_box_vals[stencil_idx] *= w[d][i(d) - stencil_box_lower(d)];
      stencil_box_cols[stencil_idx] = (*dof_index_data)(i);
  }
  \<close>
\<close>

definition interp_weights ::
  "nat \<Rightarrow> (rat \<Rightarrow> rat list) \<Rightarrow> InterpLevel \<Rightarrow> rat list \<Rightarrow> Index \<Rightarrow> rat list \<Rightarrow> Index \<Rightarrow> nat
   \<Rightarrow> rat list list" where
  "interp_weights NDIM interp_fcn level dx domain_lower X stencil_box_lower axis =
     map (\<lambda>d. let i = stencil_box_lower ! d;
                   X_stencil_lower = (of_int (i - domain_lower ! d) + (if d = axis then 0 else 1 / 2))
                                       * dx ! d + x_lower level ! d
               in interp_fcn ((X ! d - X_stencil_lower) / dx ! d)) [0..<NDIM]"

definition tensor_weight :: "nat \<Rightarrow> rat list list \<Rightarrow> Index \<Rightarrow> Index \<Rightarrow> error + rat" where
  "tensor_weight NDIM w stencil_box_lower i =
     foldM (\<lambda>v d. bind (read_at (w ! d) (nat (i ! d - stencil_box_lower ! d))) (\<lambda>wd. Inr (v * wd)))
           1 [0..<NDIM]"

definition interp_values_axis ::
  "nat \<Rightarrow> (rat \<Rightarrow> rat list) \<Rightarrow> InterpLevel \<Rightarrow> rat list \<Rightarrow> Index \<Rightarrow> int \<Rightarrow> SideData \<Rightarrow> rat list
   \<Rightarrow> nat \<Rightarrow> Box \<Rightarrow> nat \<Rightarrow> error + (int \<times> int list \<times> rat list)" where
  "interp_values_axis NDIM interp_fcn level dx domain_lower X_lower dof_index_data X k
     stencil_box axis =
     (let stencil_box_lower = lower stencil_box;
          w = interp_weights NDIM interp_fcn level dx domain_lower X stencil_box_lower axis;
          stencil_box_row = X_lower + int (NDIM * k + axis)
      in bind (mapM (\<lambda>i. bind (tensor_weight NDIM w stencil_box_lower i) (\<lambda>v.
                         bind (side_read dof_index_data axis i 0) (\<lambda>col. Inr (col, v))))
                    (box_iterator stencil_box)) (\<lambda>entries.
         Inr (stencil_box_row, map fst entries, map snd entries)))"

text \<open>
  Lines 556-609, the body for point \<open>k\<close>.  The weight buffers are sized first:
  \<^verbatim>\<open>
  std::vector<double> w[NDIM];
  for (int d = 0; d < NDIM; ++d) w[d].resize(interp_stencil);
  \<close>
  A negative \<open>int\<close> size converts to a size beyond \<open>max_size()\<close>, and \<open>resize\<close> throws
  \<open>std::length_error\<close>.
\<close>

definition resize_weights :: "nat \<Rightarrow> int \<Rightarrow> error + unit" where
  "resize_weights NDIM interp_stencil =
     (if 0 < NDIM \<and> interp_stencil < 0 then Inl (Abort ''std::length_error'') else Inr ())"

definition interp_values_point ::
  "bool \<Rightarrow> nat \<Rightarrow> (rat \<Rightarrow> rat list) \<Rightarrow> int \<Rightarrow> InterpLevel \<Rightarrow> rat list \<Rightarrow> Index \<Rightarrow> int \<Rightarrow> rat list
   \<Rightarrow> nat \<times> nat \<times> (Box \<times> int \<times> int) list \<Rightarrow> error + (int \<times> int list \<times> rat list) list" where
  "interp_values_point ndebug NDIM interp_fcn interp_stencil level dx domain_lower X_lower X_arr p =
     (case p of (k, patch_num, axes) \<Rightarrow>
        (let X = take NDIM (drop (NDIM * k) X_arr) in
         bind (read_at (patch_dof_index_data level) patch_num) (\<lambda>dof_index_data.
         bind (TBOX_ASSERT ndebug (depth dof_index_data = 1)) (\<lambda>_.
         bind (resize_weights NDIM interp_stencil) (\<lambda>_.
         mapM (\<lambda>axis. bind (read_at axes axis) (\<lambda>a.
                 interp_values_axis NDIM interp_fcn level dx domain_lower X_lower dof_index_data
                   X k (fst a) axis))
              [0..<NDIM])))))"

text \<open>
  The whole call.  The grid spacing of the level is \<open>dx0 / ratio\<close>; the physical domain
  must be a single box (asserted when assertions are compiled in, and its first box is
  read either way).  The count phase runs over all local points before any value is
  inserted, so a failure at any point leaves no matrix.  Row \<open>NDIM * k + axis\<close> of the
  count vectors belongs to axis \<open>axis\<close> of point \<open>k\<close>; rows beyond the last whole point
  keep their initial 0.
\<close>

definition grid_spacing :: "nat \<Rightarrow> InterpLevel \<Rightarrow> rat list" where
  "grid_spacing NDIM level = map (\<lambda>d. dx0 level ! d / of_int (level_ratio level ! d)) [0..<NDIM]"

definition constructPatchLevelSCInterpOp ::
  "bool \<Rightarrow> nat \<Rightarrow> nat \<Rightarrow> (rat list \<Rightarrow> Index) \<Rightarrow> (rat \<Rightarrow> rat list) \<Rightarrow> int \<Rightarrow> rat list \<Rightarrow> int
   \<Rightarrow> int list \<Rightarrow> InterpLevel \<Rightarrow> error + MatAIJ" where
  "constructPatchLevelSCInterpOp ndebug NDIM mpi_rank getCellIndex interp_fcn interp_stencil0
     X_arr X_lower num_dofs_per_proc level =
     (let interp_stencil = round_interp_stencil interp_stencil0;
          dx = grid_spacing NDIM level
      in bind (TBOX_ASSERT ndebug (length (physical_domain level) = 1)) (\<lambda>_.
         bind (read_at (physical_domain level) 0) (\<lambda>domain_box.
         bind (determine_index_ranges num_dofs_per_proc mpi_rank) (\<lambda>R.
         let m_local = length X_arr;
             n_local_points = m_local div NDIM
         in bind (mapM (interp_count_point ndebug NDIM getCellIndex interp_stencil R level dx
                          (lower domain_box) X_arr) [0..<n_local_points]) (\<lambda>points.
            bind (mapM (interp_values_point ndebug NDIM interp_fcn interp_stencil level dx
                          (lower domain_box) X_lower X_arr)
                       (zip [0..<m_local div NDIM] points)) (\<lambda>rows.
            Inr \<lparr>d_nnz = concat (map (\<lambda>p. map (\<lambda>a. fst (snd a)) (snd p)) points)
                         @ replicate (m_local - NDIM * n_local_points) 0,
                 o_nnz = concat (map (\<lambda>p. map (\<lambda>a. snd (snd a)) (snd p)) points)
                         @ replicate (m_local - NDIM * n_local_points) 0,
                 mat_rows = concat rows\<rparr>))))))"

section \<open>The inter-level transfer assembler\<close>

text \<open>
  Modelled from the spec: \<open>IndexUtilities::coarsen\<close> and \<open>IndexUtilities::refine\<close> are
  not among the sources.  The specification has the coarse cell containing a fine cell
  "found by integer-coarsening the fine index by the refinement ratio", and speaks of the
  image of a coarse index under refinement: the containing coarse cell is the
  componentwise floor of the quotient, its image the componentwise product.
\<close>

definition coarsen :: "Index \<Rightarrow> int list \<Rightarrow> Index" where
  "coarsen i_fine ratio = map (\<lambda>d. i_fine ! d div ratio ! d) [0..<length i_fine]"

definition refine :: "Index \<Rightarrow> int list \<Rightarrow> Index" where
  "refine i_coarse ratio = map (\<lambda>d. i_coarse ! d * ratio ! d) [0..<length i_coarse]"

text \<open>
  \<open>fine_ratio / coarse_ratio\<close> on \<open>IntVector\<close>s divides componentwise, with the
  truncating division of C++.
\<close>

definition intvector_divide :: "nat \<Rightarrow> int list \<Rightarrow> int list \<Rightarrow> error + int list" where
  "intvector_divide NDIM a b =
     (if \<exists>d < NDIM. b ! d = 0 then Inl DivideByZero
      else Inr (map (\<lambda>d. a ! d sdiv b ! d) [0..<NDIM]))"

text \<open>\<open>std::vector<int> v(n, 0)\<close>; a negative \<open>int\<close> size throws \<open>std::length_error\<close>.\<close>

definition new_vector :: "int \<Rightarrow> error + int list" where
  "new_vector n = (if n < 0 then Inl (Abort ''std::length_error'') else Inr (replicate (nat n) 0))"

text \<open>A checked write \<open>v[i] = x\<close>.\<close>

definition write_at :: "'a list \<Rightarrow> int \<Rightarrow> 'a \<Rightarrow> error + 'a list" where
  "write_at xs i x =
     (if 0 \<le> i \<and> i < int (length xs) then Inr (xs[nat i := x]) else Inl OutOfBounds)"

definition read_int :: "'a list \<Rightarrow> int \<Rightarrow> error + 'a" where
  "read_int xs i = (if 0 \<le> i \<and> i < int (length xs) then Inr (xs ! nat i) else Inl OutOfBounds)"

record 'a Patch =
  patch_box :: Box
  patch_data :: "'a PatchData"

text \<open>
  The two levels of a prolongation: the patches of the fine level with their DOF index
  data, the refinement ratios of both levels and the physical domain of the coarse level.
  \<open>mapIndexToInteger\<close> (\<open>IndexUtilities::mapIndexToInteger\<close>) and the application
  ordering \<open>ao\<close> (\<open>AOApplicationToPetsc\<close>, applied to each entry of the batch) are
  parameters of the assembler.
\<close>

record 'a TransferLevels =
  fine_patches :: "'a Patch list"
  fine_ratio :: "int list"
  coarse_ratio :: "int list"
  coarse_domain_boxes :: "Box list"

text \<open>
  \<open>constructProlongationOp_cell\<close>, lines 819-851: the count-phase body for one fine cell.
\<close>

definition on_proc :: "index_ranges \<Rightarrow> int \<Rightarrow> bool" where
  "on_proc R j = (j \<ge> i_lower R \<and> j < i_upper R)"




text \<open>
  \<open>constructProlongationOp_side\<close>.  The coarse side data of axis \<open>side\<close> has
  \<open>coarse_num_cells[side]\<close> = domain extent + 1, and + 2 along \<open>side\<close>; the data of
  axis \<open>axis\<close> starts at \<open>data_offset\<close>, the sizes of the axes before it times the depth.
\<close>

definition side_num_cells :: "nat \<Rightarrow> Index \<Rightarrow> Index \<Rightarrow> nat \<Rightarrow> Index" where
  "side_num_cells NDIM domain_lower domain_upper d =
     map (\<lambda>e. domain_upper ! e - domain_lower ! e + (if e = d then 2 else 1)) [0..<NDIM]"

definition prolong_data_offset :: "nat \<Rightarrow> (nat \<Rightarrow> Index) \<Rightarrow> nat \<Rightarrow> nat \<Rightarrow> int" where
  "prolong_data_offset NDIM coarse_num_cells data_depth axis =
     foldl (\<lambda>data_offset side.
              data_offset + foldl (\<lambda>side_offset d. side_offset * coarse_num_cells side ! d)
                                  (int data_depth) [0..<NDIM])
           0 [0..<axis]"

text \<open>
  Lines 1058-1095: the value-phase body for one side index \<open>i\<close> of axis \<open>axis\<close>.  A
  location with a DOF that is not owned by this process is skipped.
  \<^verbatim>\<open>
  const CellIndex<NDIM> I = IndexUtilities::coarsen(i, fine_coarse_ratio);
  const CellIndex<NDIM>& I_L = I;
  const CellIndex<NDIM> I_U = I_L + offset;
  ...
  int row = (*fine_dof_data)(i_s, d);
  int col[2] = { samrai_petsc_map[d], samrai_petsc_map[depth + d] };
  // w_L = 1 - [i(axis) - refine(I_L,ratio)(axis)]/ratio(axis)
  double w_L = 1.0 - (static_cast<double>(i(axis)) -
                      static_cast<double>(IndexUtilities::refine(I_L, fine_coarse_ratio)(axis))) /
                         static_cast<double>(fine_coarse_ratio(axis));
  double col_val[2] = { w_L, 1.0 - w_L };
  ierr = MatSetValues(mat, 1, &row, 2, col, col_val, INSERT_VALUES);
  \<close>
\<close>

definition prolong_side_map ::
  "(Index \<Rightarrow> Index \<Rightarrow> Index \<Rightarrow> nat \<Rightarrow> int \<Rightarrow> int) \<Rightarrow> (int \<Rightarrow> int) \<Rightarrow> int \<Rightarrow> int list
   \<Rightarrow> Index \<Rightarrow> Index \<Rightarrow> nat \<Rightarrow> nat \<Rightarrow> Index \<Rightarrow> int list" where
  "prolong_side_map mapIndexToInteger ao ao_offset fine_coarse_ratio coarse_domain_lower
     coarse_num_cells_axis data_depth axis i =
     (let I_L = coarsen i fine_coarse_ratio;
          I_U = I_L[axis := I_L ! axis + 1]
      in map ao
           (map (\<lambda>d. mapIndexToInteger I_L coarse_domain_lower coarse_num_cells_axis d ao_offset)
                [0..<data_depth]
            @ map (\<lambda>d. mapIndexToInteger I_U coarse_domain_lower coarse_num_cells_axis d ao_offset)
                  [0..<data_depth]))"

definition prolong_w_L :: "int list \<Rightarrow> nat \<Rightarrow> Index \<Rightarrow> rat" where
  "prolong_w_L fine_coarse_ratio axis i =
     1 - (of_int (i ! axis)
          - of_int (refine (coarsen i fine_coarse_ratio) fine_coarse_ratio ! axis))
         / of_int (fine_coarse_ratio ! axis)"

definition prolong_side_values ::
  "(Index \<Rightarrow> Index \<Rightarrow> Index \<Rightarrow> nat \<Rightarrow> int \<Rightarrow> int) \<Rightarrow> (int \<Rightarrow> int) \<Rightarrow> int \<Rightarrow> index_ranges
   \<Rightarrow> int list \<Rightarrow> Index \<Rightarrow> Index \<Rightarrow> SideData \<Rightarrow> nat \<Rightarrow> Index
   \<Rightarrow> error + (int \<times> int list \<times> rat list) list" where
  "prolong_side_values mapIndexToInteger ao ao_offset Rf fine_coarse_ratio coarse_domain_lower
     coarse_num_cells_axis fine_dof_data axis i =
     bind (mapM (\<lambda>d. side_read fine_dof_data axis i d) [0..<depth fine_dof_data]) (\<lambda>fine_dof_idx.
     if \<not> list_all (on_proc Rf) fine_dof_idx then Inr []
     else
       (let samrai_petsc_map =
              prolong_side_map mapIndexToInteger ao ao_offset fine_coarse_ratio
                coarse_domain_lower coarse_num_cells_axis (depth fine_dof_data) axis i;
            w_L = prolong_w_L fine_coarse_ratio axis i
        in mapM (\<lambda>d. bind (side_read fine_dof_data axis i d) (\<lambda>row.
                        Inr (row, [samrai_petsc_map ! d, samrai_petsc_map ! (depth fine_dof_data + d)],
                             [w_L, 1 - w_L])))
                [0..<depth fine_dof_data]))"

text \<open>Lines 979-1026: the count-phase body for one side index.\<close>

definition prolong_side_count ::
  "(Index \<Rightarrow> Index \<Rightarrow> Index \<Rightarrow> nat \<Rightarrow> int \<Rightarrow> int) \<Rightarrow> (int \<Rightarrow> int) \<Rightarrow> int \<Rightarrow> index_ranges
   \<Rightarrow> index_ranges \<Rightarrow> int list \<Rightarrow> Index \<Rightarrow> Index \<Rightarrow> SideData \<Rightarrow> nat
   \<Rightarrow> int list \<times> int list \<Rightarrow> Index \<Rightarrow> error + int list \<times> int list" where
  "prolong_side_count mapIndexToInteger ao ao_offset Rf Rc fine_coarse_ratio coarse_domain_lower
     coarse_num_cells_axis fine_dof_data axis nnz i =
     bind (mapM (\<lambda>d. side_read fine_dof_data axis i d) [0..<depth fine_dof_data]) (\<lambda>fine_dof_idx.
     if \<not> list_all (on_proc Rf) fine_dof_idx then Inr nnz
     else
       (let local_row = map (\<lambda>row. row - i_lower Rf) fine_dof_idx;
            samrai_petsc_map =
              prolong_side_map mapIndexToInteger ao ao_offset fine_coarse_ratio
                coarse_domain_lower coarse_num_cells_axis (depth fine_dof_data) axis i
        in foldM (\<lambda>nnz d.
             bind (if on_proc Rc (samrai_petsc_map ! d)
                   then bind (write_at (fst nnz) (local_row ! d) 1) (\<lambda>dn. Inr (dn, snd nnz))
                   else bind (write_at (snd nnz) (local_row ! d) 1) (\<lambda>on. Inr (fst nnz, on)))
               (\<lambda>nnz.
             if on_proc Rc (samrai_petsc_map ! (depth fine_dof_data + d))
             then bind (read_int (fst nnz) (local_row ! d)) (\<lambda>c.
                  bind (write_at (fst nnz) (local_row ! d) (c + 1)) (\<lambda>dn. Inr (dn, snd nnz)))
             else bind (read_int (snd nnz) (local_row ! d)) (\<lambda>c.
                  bind (write_at (snd nnz) (local_row ! d) (c + 1)) (\<lambda>on. Inr (fst nnz, on)))))
           nnz [0..<depth fine_dof_data]))"

definition constructProlongationOp_side ::
  "bool \<Rightarrow> nat \<Rightarrow> nat \<Rightarrow> (Index \<Rightarrow> Index \<Rightarrow> Index \<Rightarrow> nat \<Rightarrow> int \<Rightarrow> int) \<Rightarrow> (int \<Rightarrow> int) \<Rightarrow> int
   \<Rightarrow> int list \<Rightarrow> int list \<Rightarrow> (nat \<Rightarrow> Index \<Rightarrow> nat \<Rightarrow> int) TransferLevels \<Rightarrow> Box list
   \<Rightarrow> error + MatAIJ" where
  "constructProlongationOp_side ndebug NDIM mpi_rank mapIndexToInteger ao coarse_ao_offset
     num_fine_dofs_per_proc num_coarse_dofs_per_proc levels fine_domain_boxes =
     bind (TBOX_ASSERT ndebug (length (coarse_domain_boxes levels) = 1)) (\<lambda>_.
     bind (read_at (coarse_domain_boxes levels) 0) (\<lambda>coarse_domain_box.
     bind (TBOX_ASSERT ndebug (length fine_domain_boxes = 1)) (\<lambda>_.
     bind (read_at fine_domain_boxes 0) (\<lambda>fine_domain_box.
     let coarse_domain_lower = lower coarse_domain_box;
         coarse_num_cells = side_num_cells NDIM coarse_domain_lower (upper coarse_domain_box)
     in bind (intvector_divide NDIM (fine_ratio levels) (coarse_ratio levels)) (\<lambda>fine_coarse_ratio.
        bind (determine_index_ranges num_fine_dofs_per_proc mpi_rank) (\<lambda>Rf.
        bind (determine_index_ranges num_coarse_dofs_per_proc mpi_rank) (\<lambda>Rc.
        bind (new_vector (n_local Rf)) (\<lambda>zeros.
        bind (foldM (\<lambda>nnz fine_patch.
                foldM (\<lambda>nnz axis.
                   foldM (prolong_side_count mapIndexToInteger ao
                            (coarse_ao_offset
                             + prolong_data_offset NDIM coarse_num_cells
                                 (depth (patch_data fine_patch)) axis)
                            Rf Rc fine_coarse_ratio coarse_domain_lower (coarse_num_cells axis)
                            (patch_data fine_patch) axis)
                         nnz (box_iterator (toSideBox (patch_box fine_patch) axis)))
                  nnz [0..<NDIM])
              (zeros, zeros) (fine_patches levels)) (\<lambda>nnz.
        bind (mapM (\<lambda>fine_patch.
                mapM (\<lambda>axis.
                   mapM (prolong_side_values mapIndexToInteger ao
                           (coarse_ao_offset
                            + prolong_data_offset NDIM coarse_num_cells
                                (depth (patch_data fine_patch)) axis)
                           Rf fine_coarse_ratio coarse_domain_lower (coarse_num_cells axis)
                           (patch_data fine_patch) axis)
                        (box_iterator (toSideBox (patch_box fine_patch) axis)))
                  [0..<NDIM])
              (fine_patches levels)) (\<lambda>rows.
        Inr \<lparr>d_nnz = fst nnz, o_nnz = snd nnz,
             mat_rows = concat (concat (concat rows))\<rparr>))))))))))"

section \<open>The restriction scaling\<close>

text \<open>
  \<open>constructRestrictionScalingOp\<close>.  The prolongation matrix \<open>P\<close> is given by its rows,
  each of \<open>N\<close> entries.  PETSc's \<open>MatGetColumnNorms(P, NORM_1, norms)\<close> stores in
  \<open>norms[k]\<close> the sum of the absolute values of column \<open>k\<close>.
\<close>

definition MatGetColumnNorms :: "rat list list \<Rightarrow> nat \<Rightarrow> rat list" where
  "MatGetColumnNorms P N = map (\<lambda>k. sum_list (map (\<lambda>row. \<bar>row ! k\<bar>) P)) [0..<N]"

text \<open>
  \<open>1.0 / sum\<close> in IEEE arithmetic is an infinity (or a NaN) when \<open>sum\<close> is zero; the model
  has \<open>None\<close> for a value that is not a finite number.
\<close>

definition reciprocal :: "rat \<Rightarrow> rat option" where
  "reciprocal x = (if x = 0 then None else Some (1 / x))"

text \<open>
  \<^verbatim>\<open>
  for (int k = 0; k < N; ++k)
  {
      const double sum = column_sum_inv[k];
      if (!MathUtilities<double>::equalEps(sum, 0.0))
          column_sum_inv[k] = 1.0 / sum;
      else
          column_sum_inv[k] = 0.0;
  }
  ...
  for (int k = ilower; k < iupper; ++k)
  {
      L_idxs[k - ilower] = k;
      L_vals[k - ilower] = column_sum_inv[k];
  }
  \<close>
  \<open>MathUtilities<double>::equalEps\<close> belongs to the SAMRAI library and is a parameter of
  the model.  The result is the list of (index, value) pairs set in the vector \<open>L\<close>, for
  the range \<open>[ilower, iupper)\<close> of \<open>L\<close> this process owns.
\<close>

definition constructRestrictionScalingOp ::
  "(rat \<Rightarrow> rat \<Rightarrow> bool) \<Rightarrow> rat list list \<Rightarrow> nat \<Rightarrow> nat \<Rightarrow> nat \<Rightarrow> error + (nat \<times> rat option) list" where
  "constructRestrictionScalingOp equalEps P N ilower iupper =
     (let column_sum_inv =
            map (\<lambda>sum. if \<not> equalEps sum 0 then reciprocal sum else Some 0)
                (MatGetColumnNorms P N)
      in mapM (\<lambda>k. bind (read_at column_sum_inv k) (\<lambda>v. Inr (k, v))) [ilower..<iupper])"

text \<open>
  The comparison SAMRAI documents for \<open>equalEps\<close>: equality up to a relative tolerance
  of the square root of the machine epsilon, that is
  \<open>|a - b| / max(|a|, |b|, eps) < sqrt(eps)\<close> with \<open>eps = 2^-52\<close>.  It instantiates the
  parameter in concrete runs.
\<close>

definition MathUtilities_equalEps :: "rat \<Rightarrow> rat \<Rightarrow> bool" where
  "MathUtilities_equalEps a b =
     (let absmax = max \<bar>a\<bar> \<bar>b\<bar>;
          numerator = \<bar>a - b\<bar>;
          denomenator = max absmax (1 / 2 ^ 52)
      in numerator / denomenator < 1 / 2 ^ 26)"

section \<open>The stencil operator assembler\<close>

text \<open>
  \<open>constructPatchLevelCCLaplaceOp\<close>.  The stencil has \<open>2 * NDIM + 1\<close> offsets: the centre
  and, for each axis, one step down and one step up.
  \<^verbatim>\<open>
  static const int stencil_sz = 2 * NDIM + 1;
  std::vector<Index<NDIM> > stencil(stencil_sz, Index<NDIM>(0));
  for (unsigned int axis = 0, stencil_index = 1; axis < NDIM; ++axis)
      for (int side = 0; side <= 1; ++side, ++stencil_index)
          stencil[stencil_index](axis) = (side == 0 ? -1 : +1);
  \<close>
\<close>

definition index_add :: "Index \<Rightarrow> Index \<Rightarrow> Index" where
  "index_add i j = map2 (+) i j"

definition laplace_stencil :: "nat \<Rightarrow> Index list" where
  "laplace_stencil NDIM =
     replicate NDIM 0
     # concat (map (\<lambda>axis. map (\<lambda>side. (replicate NDIM 0)[axis := (if side = 0 then -1 else 1)])
                             [0, 1 :: nat])
                   [0..<NDIM])"

text \<open>
  Lines 169-196: the count-phase body for component \<open>d\<close> of cell \<open>i\<close>.
  \<^verbatim>\<open>
  const int dof_index = (*dof_index_data)(i, d);
  if (i_lower <= dof_index && dof_index < i_upper)
  {
      const int local_idx = dof_index - i_lower;
      d_nnz[local_idx] += 1;
      for (unsigned int axis = 0, stencil_index = 1; axis < NDIM; ++axis)
          for (int side = 0; side <= 1; ++side, ++stencil_index)
          {
              const int dof_index = (*dof_index_data)(i + stencil[stencil_index], d);
              if (dof_index >= i_lower && dof_index < i_upper) d_nnz[local_idx] += 1;
              else o_nnz[local_idx] += 1;
          }
      d_nnz[local_idx] = std::min(n_local, d_nnz[local_idx]);
      o_nnz[local_idx] = std::min(n_total - n_local, o_nnz[local_idx]);
  }
  \<close>
\<close>

definition laplace_count ::
  "index_ranges \<Rightarrow> Index list \<Rightarrow> CellData \<Rightarrow> int list \<times> int list \<Rightarrow> Index \<times> nat
   \<Rightarrow> error + int list \<times> int list" where
  "laplace_count R stencil dof_index_data nnz v =
     (case v of (i, d) \<Rightarrow>
        bind (cell_read dof_index_data i d) (\<lambda>dof_index.
        if i_lower R \<le> dof_index \<and> dof_index < i_upper R then
          (let local_idx = dof_index - i_lower R in
           bind (read_int (fst nnz) local_idx) (\<lambda>dn.
           bind (read_int (snd nnz) local_idx) (\<lambda>on.
           bind (mapM (\<lambda>s. cell_read dof_index_data (index_add i s) d) (tl stencil)) (\<lambda>nbrs.
           let c = foldl (count_dof R) (dn + 1, on) nbrs in
           bind (write_at (fst nnz) local_idx (min (n_local R) (fst c))) (\<lambda>d_nnz.
           bind (write_at (snd nnz) local_idx
                   (min (int32 (n_total R - n_local R)) (snd c))) (\<lambda>o_nnz.
           Inr (d_nnz, o_nnz)))))))
        else Inr nnz))"

text \<open>
  Lines 228-250: the value-phase body; the columns are the DOF indices of the centre and
  of the neighbours in stencil order, the values come from the coefficient evaluator.
\<close>

definition laplace_values ::
  "index_ranges \<Rightarrow> Index list \<Rightarrow> (Index \<Rightarrow> nat \<Rightarrow> rat) \<Rightarrow> CellData \<Rightarrow> Index \<times> nat
   \<Rightarrow> error + (int \<times> int list \<times> rat list) list" where
  "laplace_values R stencil matrix_coefs dof_index_data v =
     (case v of (i, d) \<Rightarrow>
        bind (cell_read dof_index_data i d) (\<lambda>dof_index.
        if i_lower R \<le> dof_index \<and> dof_index < i_upper R then
          (let stencil_sz = length stencil;
               offset = d * stencil_sz in
           bind (mapM (\<lambda>s. cell_read dof_index_data (index_add i s) d) (tl stencil)) (\<lambda>nbrs.
           Inr [(dof_index, dof_index # nbrs,
                 map (\<lambda>stencil_index. matrix_coefs i (offset + stencil_index)) [0..<stencil_sz])]))
        else Inr []))"

text \<open>
  The whole call.  \<open>bc_coefs_size\<close> is the depth \<open>bc_coefs.size()\<close>;
  \<open>computeMatrixCoefficients\<close> (\<open>PoissonUtilities\<close>) is a parameter giving the
  coefficient data of a patch.
\<close>

definition constructPatchLevelCCLaplaceOp ::
  "bool \<Rightarrow> nat \<Rightarrow> nat \<Rightarrow> ((Index \<Rightarrow> nat \<Rightarrow> int) Patch \<Rightarrow> Index list \<Rightarrow> Index \<Rightarrow> nat \<Rightarrow> rat) \<Rightarrow> nat
   \<Rightarrow> int list \<Rightarrow> (Index \<Rightarrow> nat \<Rightarrow> int) Patch list \<Rightarrow> error + MatAIJ" where
  "constructPatchLevelCCLaplaceOp ndebug NDIM mpi_rank computeMatrixCoefficients bc_coefs_size
     num_dofs_per_proc patches =
     (let stencil = laplace_stencil NDIM in
      bind (determine_index_ranges num_dofs_per_proc mpi_rank) (\<lambda>R.
      bind (new_vector (n_local R)) (\<lambda>zeros.
      bind (foldM (\<lambda>nnz patch.
              bind (TBOX_ASSERT ndebug (bc_coefs_size = depth (patch_data patch))) (\<lambda>_.
              foldM (\<lambda>nnz i.
                 foldM (\<lambda>nnz d. laplace_count R stencil (patch_data patch) nnz (i, d))
                       nnz [0..<bc_coefs_size])
                nnz (box_iterator (patch_box patch))))
            (zeros, zeros) patches) (\<lambda>nnz.
      bind (mapM (\<lambda>patch.
              mapM (\<lambda>i.
                 mapM (\<lambda>d. laplace_values R stencil (computeMatrixCoefficients patch stencil)
                              (patch_data patch) (i, d))
                      [0..<bc_coefs_size])
                (box_iterator (patch_box patch)))
            patches) (\<lambda>rows.
      Inr \<lparr>d_nnz = fst nnz, o_nnz = snd nnz, mat_rows = concat (concat (concat rows))\<rparr>)))))"

section \<open>The subdomain partitioner\<close>

text \<open>
  An index set (\<open>IS\<close>) is a handle to a reference-counted PETSc object.  The objects live
  in a store, a list indexed by handle; a null handle is \<open>None\<close>.  \<open>ISCreateGeneral\<close>
  with \<open>PETSC_COPY_VALUES\<close> makes a new object holding a copy of the indices, with
  reference count 1; \<open>PetscObjectReference\<close> increments the count of an object,
  \<open>ISDestroy\<close> decrements it (and does nothing for a null handle).  Two handles denote
  the identical object exactly when they are equal.
\<close>

record IS_object =
  refct :: nat
  indices :: "int list"

type_synonym IS = "nat option"

record ASMState =
  petsc_objects :: "IS_object list"
  is_overlap :: "IS list"
  is_nonoverlap :: "IS list"
  subdomain_counter :: int

definition ISCreateGeneral :: "IS_object list \<Rightarrow> int list \<Rightarrow> IS_object list \<times> IS" where
  "ISCreateGeneral objects idx =
     (objects @ [\<lparr>refct = 1, indices = idx\<rparr>], Some (length objects))"

definition PetscObjectReference :: "IS_object list \<Rightarrow> IS \<Rightarrow> error + IS_object list" where
  "PetscObjectReference objects obj =
     (case obj of
        None \<Rightarrow> Inl (Abort ''Null Object'')
      | Some h \<Rightarrow>
          if h < length objects
          then Inr (objects[h := (objects ! h)\<lparr>refct := refct (objects ! h) + 1\<rparr>])
          else Inl OutOfBounds)"

definition ISDestroy :: "IS_object list \<Rightarrow> IS \<Rightarrow> error + IS_object list" where
  "ISDestroy objects obj =
     (case obj of
        None \<Rightarrow> Inr objects
      | Some h \<Rightarrow>
          if h < length objects
          then Inr (objects[h := (objects ! h)\<lparr>refct := refct (objects ! h) - 1\<rparr>])
          else Inl OutOfBounds)"

text \<open>
  Both variants end the body for one sub-box with the same lines (1161-1200 and
  1332-1379):
  \<^verbatim>\<open>
  std::sort(box_local_dofs.begin(), box_local_dofs.end());
  ISCreateGeneral(PETSC_COMM_SELF, n_idx, &box_local_dofs[0], PETSC_COPY_VALUES,
                  &is_nonoverlap[subdomain_counter]);
  if (!there_is_overlap)
  {
      PetscObjectReference(reinterpret_cast<PetscObject>(is_nonoverlap[subdomain_counter]));
      is_overlap[subdomain_counter] = is_nonoverlap[subdomain_counter];
  }
  else
  {
      ... collect box_overlap_dofs ...
      std::sort(box_overlap_dofs.begin(), box_overlap_dofs.end());
      box_overlap_dofs.erase(std::unique(box_overlap_dofs.begin(), box_overlap_dofs.end()),
                             box_overlap_dofs.end());
      ISCreateGeneral(PETSC_COMM_SELF, n_idx, &box_overlap_dofs[0], PETSC_COPY_VALUES,
                      &is_overlap[subdomain_counter]);
  }
  \<close>
  \<open>box_overlap_dofs\<close> is the collection of the overlapping DOFs, which only the second
  branch runs.
\<close>

definition asm_index_sets ::
  "bool \<Rightarrow> ASMState \<Rightarrow> int list \<Rightarrow> error + int list \<Rightarrow> error + ASMState" where
  "asm_index_sets there_is_overlap st box_local_dofs box_overlap_dofs =
     (let created = ISCreateGeneral (petsc_objects st) (sort box_local_dofs) in
      bind (write_at (is_nonoverlap st) (subdomain_counter st) (snd created)) (\<lambda>is_nonoverlap'.
      if \<not> there_is_overlap then
        bind (read_int is_nonoverlap' (subdomain_counter st)) (\<lambda>shared.
        bind (PetscObjectReference (fst created) shared) (\<lambda>objects'.
        bind (write_at (is_overlap st) (subdomain_counter st) shared) (\<lambda>is_overlap'.
        Inr \<lparr>petsc_objects = objects', is_overlap = is_overlap',
             is_nonoverlap = is_nonoverlap', subdomain_counter = subdomain_counter st + 1\<rparr>)))
      else
        bind box_overlap_dofs (\<lambda>dofs.
        let created' = ISCreateGeneral (fst created) (remdups_adj (sort dofs)) in
        bind (write_at (is_overlap st) (subdomain_counter st) (snd created')) (\<lambda>is_overlap'.
        Inr \<lparr>petsc_objects = fst created', is_overlap = is_overlap',
             is_nonoverlap = is_nonoverlap', subdomain_counter = subdomain_counter st + 1\<rparr>))))"

text \<open>\<open>IntVector::max()\<close> and \<open>IntVector::min()\<close>: the largest and the smallest component.\<close>

definition intvector_max :: "nat \<Rightarrow> int list \<Rightarrow> int" where
  "intvector_max NDIM v = foldl max (v ! 0) (map (\<lambda>d. v ! d) [1..<NDIM])"

definition intvector_min :: "nat \<Rightarrow> int list \<Rightarrow> int" where
  "intvector_min NDIM v = foldl min (v ! 0) (map (\<lambda>d. v ! d) [1..<NDIM])"

text \<open>
  The ghost cell width of patch data is the distance from the patch box to the ghost box.
\<close>

definition ghost_cell_width :: "nat \<Rightarrow> ('a, 'b) Patch_scheme \<Rightarrow> int list" where
  "ghost_cell_width NDIM patch =
     map (\<lambda>d. lower (patch_box patch) ! d - lower (ghost_box (patch_data patch)) ! d) [0..<NDIM]"

text \<open>
  \<open>constructPatchLevelASMSubdomains_cell\<close>.  \<open>IndexUtilities::partitionPatchBox\<close> is a
  parameter: it returns the overlapping and the non-overlapping sub-boxes of a patch box.
  The index-set vectors arrive cleared and are resized to the number of overlapping
  sub-boxes, all handles null.
\<close>

definition cell_dofs :: "CellData \<Rightarrow> Box \<Rightarrow> error + int list" where
  "cell_dofs dof_data box =
     bind (mapM (\<lambda>i. mapM (\<lambda>d. cell_read dof_data i d) [0..<depth dof_data]) (box_iterator box))
          (\<lambda>dofs. Inr (concat dofs))"

definition asm_cell_subdomain ::
  "bool \<Rightarrow> CellData \<Rightarrow> Box list \<Rightarrow> Box list \<Rightarrow> ASMState \<Rightarrow> nat \<Rightarrow> error + ASMState" where
  "asm_cell_subdomain there_is_overlap dof_data overlap_boxes nonoverlap_boxes st i =
     bind (read_at nonoverlap_boxes i) (\<lambda>box_local.
     bind (cell_dofs dof_data box_local) (\<lambda>box_local_dofs.
     asm_index_sets there_is_overlap st box_local_dofs
       (bind (read_at overlap_boxes i) (\<lambda>box_overlap.
        bind (cell_dofs dof_data box_overlap) (\<lambda>dofs.
        Inr (filter (\<lambda>dof_idx. dof_idx \<ge> 0) dofs))))))"

definition constructPatchLevelASMSubdomains_cell ::
  "bool \<Rightarrow> nat \<Rightarrow> (Box \<Rightarrow> int list \<Rightarrow> int list \<Rightarrow> Box list \<times> Box list) \<Rightarrow> int list \<Rightarrow> int list
   \<Rightarrow> (Index \<Rightarrow> nat \<Rightarrow> int) Patch list \<Rightarrow> IS_object list \<Rightarrow> error + ASMState" where
  "constructPatchLevelASMSubdomains_cell ndebug NDIM partitionPatchBox box_size overlap_size
     patches objects =
     (let there_is_overlap = (intvector_max NDIM overlap_size \<noteq> 0);
          boxes = map (\<lambda>patch. partitionPatchBox (patch_box patch) box_size overlap_size) patches;
          n = sum_list (map (\<lambda>b. length (fst b)) boxes)
      in foldM (\<lambda>st pb.
           bind (TBOX_ASSERT ndebug
                   (intvector_min NDIM (ghost_cell_width NDIM (fst pb))
                      \<ge> intvector_max NDIM overlap_size)) (\<lambda>_.
           foldM (asm_cell_subdomain there_is_overlap (patch_data (fst pb))
                    (fst (snd pb)) (snd (snd pb)))
                 st [0..<length (fst (snd pb))]))
         \<lparr>petsc_objects = objects, is_overlap = replicate n None,
          is_nonoverlap = replicate n None, subdomain_counter = 0\<rparr>
         (zip patches boxes))"

text \<open>
  \<open>constructPatchLevelASMSubdomains_side\<close>.  A patch of the side-centred variant also
  carries what its geometry and the coarse-fine boundary say about it: whether it touches
  the physical boundary, on which faces, and its codimension-one coarse-fine boundary
  boxes with their location index (\<open>2 * axis + side\<close>).
\<close>

record BoundaryBox =
  getBox :: Box
  getLocationIndex :: nat

record 'a SidePatch = "'a Patch" +
  intersectsPhysicalBoundary :: bool
  getTouchesRegularBoundary :: "nat \<Rightarrow> nat \<Rightarrow> bool"
  getBoundaries :: "BoundaryBox list"

definition LOWER :: nat where
  "LOWER = 0"

definition UPPER :: nat where
  "UPPER = 1"

text \<open>
  Lines 1284-1295: which faces of the patch touch the coarse-fine interface, and the
  boundary boxes of each upper face.
\<close>

definition cf_bdry_setup ::
  "nat \<Rightarrow> BoundaryBox list \<Rightarrow> error + (bool list list \<times> Box list list)" where
  "cf_bdry_setup NDIM cf_codim1_boxes =
     foldM (\<lambda>s cf_bdry_box.
              let bdry_box = getBox cf_bdry_box;
                  location_index = getLocationIndex cf_bdry_box;
                  bdry_normal_axis = location_index div 2
              in bind (read_at (fst s) bdry_normal_axis) (\<lambda>flags.
                 bind (write_at (fst s) (int bdry_normal_axis)
                         (flags[location_index mod 2 := True])) (\<lambda>touches_cf_bdry.
                 if location_index mod 2 = UPPER
                 then bind (read_at (snd s) bdry_normal_axis) (\<lambda>boxes.
                      bind (write_at (snd s) (int bdry_normal_axis) (boxes @ [bdry_box]))
                        (\<lambda>upper_side_cf_bdry_box. Inr (touches_cf_bdry, upper_side_cf_bdry_box)))
                 else Inr (touches_cf_bdry, snd s))))
           (replicate NDIM [False, False], replicate NDIM []) cf_codim1_boxes"

text \<open>
  Lines 1316-1330: a side on the upper face of the patch belongs to the sub-box only at
  the physical boundary or at the coarse-fine interface; the latter is asked of
  \<open>is_cf_bdry_idx\<close>, and only when the earlier conjuncts hold.
\<close>

definition side_local_dof ::
  "(nat \<Rightarrow> Index \<Rightarrow> nat \<Rightarrow> int) SidePatch \<Rightarrow> bool \<Rightarrow> bool list list \<Rightarrow> Box list list \<Rightarrow> nat
   \<Rightarrow> Index \<Rightarrow> error + int list" where
  "side_local_dof patch patch_touches_cf_bdry touches_cf_bdry upper_side_cf_bdry_box axis i =
     (let at_upper_bdry = (i ! axis = upper (toSideBox (patch_box patch) axis) ! axis);
          at_upper_physical_bdry =
            (at_upper_bdry \<and> intersectsPhysicalBoundary patch
             \<and> getTouchesRegularBoundary patch axis UPPER)
      in bind (if at_upper_bdry \<and> patch_touches_cf_bdry \<and> touches_cf_bdry ! axis ! UPPER
               then is_cf_bdry_idx i (upper_side_cf_bdry_box ! axis)
               else Inr False) (\<lambda>at_upper_cf_bdry.
         if \<not> at_upper_bdry \<or> at_upper_physical_bdry \<or> at_upper_cf_bdry
         then bind (side_read (patch_data patch) axis i 0) (\<lambda>dof. Inr [dof])
         else Inr []))"

definition side_local_dofs ::
  "nat \<Rightarrow> (nat \<Rightarrow> Index \<Rightarrow> nat \<Rightarrow> int) SidePatch \<Rightarrow> bool \<Rightarrow> bool list list \<Rightarrow> Box list list
   \<Rightarrow> Box \<Rightarrow> error + int list" where
  "side_local_dofs NDIM patch patch_touches_cf_bdry touches_cf_bdry upper_side_cf_bdry_box
     box_local =
     bind (mapM (\<lambda>axis.
             mapM (side_local_dof patch patch_touches_cf_bdry touches_cf_bdry
                     upper_side_cf_bdry_box axis)
                  (box_iterator (toSideBox box_local axis)))
           [0..<NDIM]) (\<lambda>dofs. Inr (concat (concat dofs)))"

definition side_overlap_dofs :: "nat \<Rightarrow> SideData \<Rightarrow> Box \<Rightarrow> error + int list" where
  "side_overlap_dofs NDIM dof_data box_overlap =
     bind (mapM (\<lambda>axis. mapM (\<lambda>i. side_read dof_data axis i 0)
                           (box_iterator (toSideBox box_overlap axis)))
           [0..<NDIM]) (\<lambda>dofs. Inr (filter (\<lambda>dof_idx. dof_idx \<ge> 0) (concat dofs)))"

definition asm_side_subdomain ::
  "bool \<Rightarrow> nat \<Rightarrow> (nat \<Rightarrow> Index \<Rightarrow> nat \<Rightarrow> int) SidePatch \<Rightarrow> bool \<Rightarrow> bool list list
   \<Rightarrow> Box list list \<Rightarrow> Box list \<Rightarrow> Box list \<Rightarrow> ASMState \<Rightarrow> nat \<Rightarrow> error + ASMState" where
  "asm_side_subdomain there_is_overlap NDIM patch patch_touches_cf_bdry touches_cf_bdry
     upper_side_cf_bdry_box overlap_boxes nonoverlap_boxes st i =
     bind (read_at nonoverlap_boxes i) (\<lambda>box_local.
     bind (side_local_dofs NDIM patch patch_touches_cf_bdry touches_cf_bdry
             upper_side_cf_bdry_box box_local) (\<lambda>box_local_dofs.
     asm_index_sets there_is_overlap st box_local_dofs
       (bind (read_at overlap_boxes i) (\<lambda>box_overlap.
        side_overlap_dofs NDIM (patch_data patch) box_overlap))))"

definition constructPatchLevelASMSubdomains_side ::
  "bool \<Rightarrow> nat \<Rightarrow> (Box \<Rightarrow> int list \<Rightarrow> int list \<Rightarrow> Box list \<times> Box list) \<Rightarrow> int list \<Rightarrow> int list
   \<Rightarrow> int \<Rightarrow> (nat \<Rightarrow> Index \<Rightarrow> nat \<Rightarrow> int) SidePatch list \<Rightarrow> IS_object list \<Rightarrow> error + ASMState" where
  "constructPatchLevelASMSubdomains_side ndebug NDIM partitionPatchBox box_size overlap_size
     level_num patches objects =
     (let there_is_overlap = (intvector_max NDIM overlap_size \<noteq> 0);
          boxes = map (\<lambda>patch. partitionPatchBox (patch_box patch) box_size overlap_size) patches;
          n = sum_list (map (\<lambda>b. length (fst b)) boxes)
      in foldM (\<lambda>st pb.
           bind (TBOX_ASSERT ndebug (depth (patch_data (fst pb)) = 1)) (\<lambda>_.
           bind (TBOX_ASSERT ndebug
                   (intvector_min NDIM (ghost_cell_width NDIM (fst pb))
                      \<ge> intvector_max NDIM overlap_size)) (\<lambda>_.
           let cf_codim1_boxes = (if level_num = 0 then [] else getBoundaries (fst pb));
               patch_touches_cf_bdry = (length cf_codim1_boxes \<noteq> 0)
           in bind (cf_bdry_setup NDIM cf_codim1_boxes) (\<lambda>cf.
              foldM (asm_side_subdomain there_is_overlap NDIM (fst pb) patch_touches_cf_bdry
                       (fst cf) (snd cf) (fst (snd pb)) (snd (snd pb)))
                    st [0..<length (snd (snd pb))]))))
         \<lparr>petsc_objects = objects, is_overlap = replicate n None,
          is_nonoverlap = replicate n None, subdomain_counter = 0\<rparr>
         (zip patches boxes))"

text \<open>
  The public entry point destroys the index sets it is handed, clears the vectors and
  dispatches on the centring of the DOF index variable.
\<close>

datatype dof_index_variable =
    CellVariable "(Index \<Rightarrow> nat \<Rightarrow> int) Patch list"
  | SideVariable int "(nat \<Rightarrow> Index \<Rightarrow> nat \<Rightarrow> int) SidePatch list"
  | OtherVariable string

definition constructPatchLevelASMSubdomains ::
  "bool \<Rightarrow> nat \<Rightarrow> (Box \<Rightarrow> int list \<Rightarrow> int list \<Rightarrow> Box list \<times> Box list) \<Rightarrow> IS list \<Rightarrow> IS list
   \<Rightarrow> int list \<Rightarrow> int list \<Rightarrow> dof_index_variable \<Rightarrow> IS_object list \<Rightarrow> error + ASMState" where
  "constructPatchLevelASMSubdomains ndebug NDIM partitionPatchBox is_overlap0 is_nonoverlap0
     box_size overlap_size dof_index_var objects =
     bind (foldM ISDestroy objects is_overlap0) (\<lambda>objects.
     bind (foldM ISDestroy objects is_nonoverlap0) (\<lambda>objects.
     case dof_index_var of
       CellVariable patches \<Rightarrow>
         constructPatchLevelASMSubdomains_cell ndebug NDIM partitionPatchBox box_size
           overlap_size patches objects
     | SideVariable level_num patches \<Rightarrow>
         constructPatchLevelASMSubdomains_side ndebug NDIM partitionPatchBox box_size
           overlap_size level_num patches objects
     | OtherVariable name \<Rightarrow>
         Inl (Abort (''PETScVecUtilities::constructPatchLevelASMSubdomains(): unsupported ''
                     @ ''data centering type for variable '' @ name))))"

text \<open>
  The patch boxes of the level a DOF index variable lives on, and the number of sub-boxes
  the partitioner makes of them: the size the index-set vectors are given.
\<close>

definition patch_boxes :: "dof_index_variable \<Rightarrow> Box list" where
  "patch_boxes dof_index_var =
     (case dof_index_var of
        CellVariable patches \<Rightarrow> map patch_box patches
      | SideVariable level_num patches \<Rightarrow> map patch_box patches
      | OtherVariable name \<Rightarrow> [])"

definition n_subdomains ::
  "(Box \<Rightarrow> int list \<Rightarrow> int list \<Rightarrow> Box list \<times> Box list) \<Rightarrow> int list \<Rightarrow> int list
   \<Rightarrow> dof_index_variable \<Rightarrow> nat" where
  "n_subdomains partitionPatchBox box_size overlap_size dof_index_var =
     sum_list (map (\<lambda>b. length (fst (partitionPatchBox b box_size overlap_size)))
                   (patch_boxes dof_index_var))"

text \<open>
  The state after \<open>c\<close> sub-boxes, when the store held \<open>L\<close> objects before the first and
  the vectors have \<open>N\<close> positions: sub-box \<open>k\<close> has the object created for it, number
  \<open>L + k\<close>, as its overlapping and as its non-overlapping set, referenced twice.
\<close>

definition shared_sets :: "nat \<Rightarrow> nat \<Rightarrow> nat \<Rightarrow> ASMState \<Rightarrow> bool" where
  "shared_sets L N c st \<longleftrightarrow>
     subdomain_counter st = int c \<and> length (petsc_objects st) = L + c
     \<and> length (is_overlap st) = N \<and> length (is_nonoverlap st) = N
     \<and> (\<forall>k < c. k < N \<longrightarrow>
           is_overlap st ! k = Some (L + k) \<and> is_nonoverlap st ! k = Some (L + k)
           \<and> refct (petsc_objects st ! (L + k)) = 2)"

section \<open>Nonzeros of a row and the budget relation\<close>

text \<open>
  The nonzeros the value phase puts into row \<open>row\<close> are the distinct columns of the
  \<open>MatSetValues\<close> calls for that row that are columns of the matrix, between 0 and
  \<open>n_total\<close> (PETSc ignores a negative column index).  The local ones lie in the
  owner's range and belong to the diagonal block, counted by \<open>d_nnz\<close>; the remote ones
  belong to the off-diagonal block, counted by \<open>o_nnz\<close>.  \<open>budget_rel\<close> relates the
  count vectors before and after a stretch of the count phase to the rows the value phase
  inserts on the same stretch: each budget grows by at least the number of nonzeros, up
  to its clamp.
\<close>

definition row_columns :: "(int \<times> int list \<times> rat list) list \<Rightarrow> int \<Rightarrow> int list" where
  "row_columns rows row = concat (map (\<lambda>e. fst (snd e)) (filter (\<lambda>e. fst e = row) rows))"

definition local_nonzeros :: "index_ranges \<Rightarrow> (int \<times> int list \<times> rat list) list \<Rightarrow> int \<Rightarrow> int set" where
  "local_nonzeros R rows row = set (filter (on_proc R) (row_columns rows row))"

definition remote_nonzeros :: "index_ranges \<Rightarrow> (int \<times> int list \<times> rat list) list \<Rightarrow> int \<Rightarrow> int set" where
  "remote_nonzeros R rows row =
     set (filter (\<lambda>c. 0 \<le> c \<and> c < n_total R \<and> \<not> on_proc R c) (row_columns rows row))"

definition budget_rel ::
  "index_ranges \<Rightarrow> int list \<times> int list \<Rightarrow> (int \<times> int list \<times> rat list) list
   \<Rightarrow> int list \<times> int list \<Rightarrow> bool" where
  "budget_rel R nnz rows nnz' \<longleftrightarrow>
     length (fst nnz') = length (fst nnz) \<and> length (snd nnz') = length (snd nnz)
     \<and> (\<forall>idx < length (fst nnz).
          min (n_local R) (fst nnz ! idx + int (card (local_nonzeros R rows (i_lower R + int idx))))
            \<le> fst nnz' ! idx)
     \<and> (\<forall>idx < length (snd nnz).
          min (int32 (n_total R - n_local R))
              (snd nnz ! idx + int (card (remote_nonzeros R rows (i_lower R + int idx))))
            \<le> snd nnz' ! idx)
     \<and> ((\<forall>idx < length (fst nnz). fst nnz ! idx \<le> n_local R)
          \<longrightarrow> (\<forall>idx < length (fst nnz). fst nnz' ! idx \<le> n_local R))
     \<and> ((\<forall>idx < length (snd nnz). snd nnz ! idx \<le> int32 (n_total R - n_local R))
          \<longrightarrow> (\<forall>idx < length (snd nnz). snd nnz' ! idx \<le> int32 (n_total R - n_local R)))"

section \<open>The stencil rows and their budgets, as the specification words them\<close>

text \<open>
  The specification has the stencil operator assembler insert, for every owned location and
  component, one row whose columns are the DOF indices of the centre and of its neighbours
  in stencil order, with coefficients from the evaluator; and declare, for that row, the
  centre as a local nonzero and each of the \<open>2 * NDIM\<close> neighbours as local if its DOF
  index lies in the owner's range and as remote otherwise, each count clamped to its
  block maximum.  \<open>cell_locations\<close> lists the locations in the order of the loops,
  \<open>neighbour_cells\<close> the neighbours of a cell (for each axis the lower, then the upper
  one), \<open>stencil_row\<close> the row of a location (none if its DOF is not owned) and
  \<open>declare_row\<close> applies the counting rule to the columns of one inserted row.
\<close>

definition cell_locations ::
  "nat \<Rightarrow> (Index \<Rightarrow> nat \<Rightarrow> int) Patch list \<Rightarrow> (nat \<times> Index \<times> nat) list" where
  "cell_locations data_depth patches =
     concat (map (\<lambda>p. concat (map (\<lambda>i. map (\<lambda>d. (p, i, d)) [0..<data_depth])
                                (box_iterator (patch_box (patches ! p)))))
                 [0..<length patches])"

definition neighbour_cells :: "nat \<Rightarrow> Index \<Rightarrow> Index list" where
  "neighbour_cells NDIM i =
     concat (map (\<lambda>axis. [i[axis := i ! axis - 1], i[axis := i ! axis + 1]]) [0..<NDIM])"

definition stencil_row ::
  "index_ranges \<Rightarrow> nat \<Rightarrow> ((Index \<Rightarrow> nat \<Rightarrow> int) Patch \<Rightarrow> Index list \<Rightarrow> Index \<Rightarrow> nat \<Rightarrow> rat)
   \<Rightarrow> (Index \<Rightarrow> nat \<Rightarrow> int) Patch list \<Rightarrow> nat \<times> Index \<times> nat
   \<Rightarrow> (int \<times> int list \<times> rat list) list" where
  "stencil_row R NDIM evaluator patches loc =
     (case loc of (p, i, d) \<Rightarrow>
        (let dof_index_data = patch_data (patches ! p);
             dof_index = array dof_index_data i d
         in if on_proc R dof_index then
              [(dof_index,
                dof_index # map (\<lambda>j. array dof_index_data j d) (neighbour_cells NDIM i),
                map (\<lambda>k. evaluator (patches ! p) (laplace_stencil NDIM) i (d * (2 * NDIM + 1) + k))
                    [0..<2 * NDIM + 1])]
            else []))"

definition declare_row ::
  "index_ranges \<Rightarrow> int list \<times> int list \<Rightarrow> int \<times> int list \<times> rat list \<Rightarrow> int list \<times> int list" where
  "declare_row R nnz e =
     (case e of (row, cols, vals) \<Rightarrow>
        (let k = nat (row - i_lower R) in
         ((fst nnz)[k := min (n_local R)
                          (fst nnz ! k + 1 + int (length (filter (on_proc R) (tl cols))))],
          (snd nnz)[k := min (n_total R - n_local R)
                          (snd nnz ! k + int (length (filter (\<lambda>c. \<not> on_proc R c) (tl cols))))])))"

section \<open>Fine locations and their coarse columns\<close>

text \<open>
  The fine-level DOFs of a cell-centred level are listed by \<open>fine_locations\<close>: one entry
  per patch, cell of the patch box and component.  \<open>fine_dof\<close> is the DOF index stored
  there.  \<open>coarse_column\<close> is the column the specification names for a fine location:
  the DOF of the coarse cell obtained by coarsening the fine cell index by the
  fine-to-coarse ratio, numbered by \<open>mapIndexToInteger\<close> and passed through the
  application ordering.
\<close>

definition fine_locations :: "(Index \<Rightarrow> nat \<Rightarrow> int) TransferLevels \<Rightarrow> (nat \<times> Index \<times> nat) list" where
  "fine_locations levels =
     concat (map (\<lambda>p. concat (map (\<lambda>i. map (\<lambda>d. (p, i, d))
                                          [0..<depth (patch_data (fine_patches levels ! p))])
                                (box_iterator (patch_box (fine_patches levels ! p)))))
                 [0..<length (fine_patches levels)])"



text \<open>
  For a side-centred level the specification gives each fine side two coarse sides on
  the same axis, the bracketing coarse lines: \<open>lower_bracket\<close> is the coarsened fine
  index \<open>I_L\<close> and \<open>upper_bracket\<close> its neighbour \<open>I_U = I_L + e_axis\<close>.
  \<open>coarse_side_column\<close> is the DOF the coarse numbering (\<open>mapIndexToInteger\<close> with the
  extents and the data offset of the axis, then the application ordering) gives a coarse
  index, \<open>bracket_columns\<close> the two columns of a fine side, and \<open>coarse_side_box\<close> the
  box of the sides of the coarse level normal to an axis.  \<open>side_locations\<close> lists the
  fine sides in the order of the loops and \<open>side_rows\<close> the rows of a fine side, one per
  component: none when a component's DOF is not owned by this process.
\<close>

definition fine_to_coarse_ratio :: "nat \<Rightarrow> 'a TransferLevels \<Rightarrow> int list" where
  "fine_to_coarse_ratio NDIM levels =
     map (\<lambda>d. fine_ratio levels ! d sdiv coarse_ratio levels ! d) [0..<NDIM]"

definition lower_bracket :: "nat \<Rightarrow> 'a TransferLevels \<Rightarrow> Index \<Rightarrow> Index" where
  "lower_bracket NDIM levels i = coarsen i (fine_to_coarse_ratio NDIM levels)"

definition upper_bracket :: "nat \<Rightarrow> 'a TransferLevels \<Rightarrow> nat \<Rightarrow> Index \<Rightarrow> Index" where
  "upper_bracket NDIM levels axis i =
     (lower_bracket NDIM levels i)[axis := lower_bracket NDIM levels i ! axis + 1]"

definition coarse_side_box :: "'a TransferLevels \<Rightarrow> nat \<Rightarrow> Box" where
  "coarse_side_box levels axis = toSideBox (coarse_domain_boxes levels ! 0) axis"

definition coarse_side_column ::
  "nat \<Rightarrow> (Index \<Rightarrow> Index \<Rightarrow> Index \<Rightarrow> nat \<Rightarrow> int \<Rightarrow> int) \<Rightarrow> (int \<Rightarrow> int) \<Rightarrow> int
   \<Rightarrow> (nat \<Rightarrow> Index \<Rightarrow> nat \<Rightarrow> int) TransferLevels \<Rightarrow> nat \<Rightarrow> nat \<Rightarrow> Index \<Rightarrow> nat \<Rightarrow> int" where
  "coarse_side_column NDIM mapIndexToInteger ao coarse_ao_offset levels p axis I d =
     (let coarse_domain_box = coarse_domain_boxes levels ! 0;
          coarse_num_cells = side_num_cells NDIM (lower coarse_domain_box) (upper coarse_domain_box);
          offset = coarse_ao_offset
                   + prolong_data_offset NDIM coarse_num_cells
                       (depth (patch_data (fine_patches levels ! p))) axis
      in ao (mapIndexToInteger I (lower coarse_domain_box) (coarse_num_cells axis) d offset))"

definition bracket_columns ::
  "nat \<Rightarrow> (Index \<Rightarrow> Index \<Rightarrow> Index \<Rightarrow> nat \<Rightarrow> int \<Rightarrow> int) \<Rightarrow> (int \<Rightarrow> int) \<Rightarrow> int
   \<Rightarrow> (nat \<Rightarrow> Index \<Rightarrow> nat \<Rightarrow> int) TransferLevels \<Rightarrow> nat \<Rightarrow> nat \<Rightarrow> Index \<Rightarrow> nat \<Rightarrow> int list" where
  "bracket_columns NDIM mapIndexToInteger ao coarse_ao_offset levels p axis i d =
     [coarse_side_column NDIM mapIndexToInteger ao coarse_ao_offset levels p axis
        (lower_bracket NDIM levels i) d,
      coarse_side_column NDIM mapIndexToInteger ao coarse_ao_offset levels p axis
        (upper_bracket NDIM levels axis i) d]"

definition side_locations ::
  "nat \<Rightarrow> (nat \<Rightarrow> Index \<Rightarrow> nat \<Rightarrow> int) TransferLevels \<Rightarrow> (nat \<times> nat \<times> Index) list" where
  "side_locations NDIM levels =
     concat (map (\<lambda>p. concat (map (\<lambda>axis. map (\<lambda>i. (p, axis, i))
                                   (box_iterator (toSideBox (patch_box (fine_patches levels ! p)) axis)))
                                [0..<NDIM]))
                 [0..<length (fine_patches levels)])"

definition side_rows ::
  "nat \<Rightarrow> (Index \<Rightarrow> Index \<Rightarrow> Index \<Rightarrow> nat \<Rightarrow> int \<Rightarrow> int) \<Rightarrow> (int \<Rightarrow> int) \<Rightarrow> int \<Rightarrow> index_ranges
   \<Rightarrow> (nat \<Rightarrow> Index \<Rightarrow> nat \<Rightarrow> int) TransferLevels \<Rightarrow> nat \<times> nat \<times> Index
   \<Rightarrow> (int \<times> int list \<times> rat list) list" where
  "side_rows NDIM mapIndexToInteger ao coarse_ao_offset Rf levels loc =
     (case loc of (p, axis, i) \<Rightarrow>
        (let fine_dof_data = patch_data (fine_patches levels ! p);
             w_L = prolong_w_L (fine_to_coarse_ratio NDIM levels) axis i
         in if list_all (\<lambda>d. on_proc Rf (array fine_dof_data axis i d)) [0..<depth fine_dof_data]
            then map (\<lambda>d. (array fine_dof_data axis i d,
                           bracket_columns NDIM mapIndexToInteger ao coarse_ao_offset levels
                             p axis i d,
                           [w_L, 1 - w_L]))
                     [0..<depth fine_dof_data]
            else []))"

section \<open>The tensor-product row, as the specification words it\<close>

text \<open>
  The specification describes a coefficient row of the interpolation matrix as the tensor
  product, across the stencil box, of per-axis one-dimensional kernel weights evaluated
  at the offsets between the point and the lowest stencil line.  The stencil box has the
  configured width in every direction and is offset half a cell depending on which side
  of the cell centre the point falls.

  For the component \<open>axis\<close> the stencil lines of direction \<open>d\<close> are the lines the sides
  normal to \<open>axis\<close> lie on: cell faces for \<open>d = axis\<close>, cell centres otherwise.
  \<open>stencil_line\<close> is the position of line \<open>j\<close>, \<open>stencil_spacing\<close> the distance of
  neighbouring lines.  \<open>lowest_stencil_line\<close> is the first of the \<open>s\<close> lines nearest to
  the point: along \<open>axis\<close> the point lies between the faces \<open>c\<close> and \<open>c + 1\<close> of its cell
  \<open>c\<close>; across, it lies between the centres \<open>c - 1\<close> and \<open>c\<close> when it is in the lower
  half of its cell and between \<open>c\<close> and \<open>c + 1\<close> otherwise.  \<open>centred_stencil_box\<close> is the
  box of these lines, \<open>kernel_weights\<close> the weight arrays of the directions, \<open>kernel_row\<close>
  the tensor product for given weight arrays and a given box, and \<open>tensor_product_row\<close>
  the coefficient row of axis \<open>axis\<close> of point \<open>k\<close>.  \<open>box_width\<close> says that a box has
  NDIM coordinates and \<open>s\<close> indices along each of them.
\<close>

definition stencil_spacing :: "InterpLevel \<Rightarrow> nat \<Rightarrow> rat" where
  "stencil_spacing level d = dx0 level ! d / of_int (level_ratio level ! d)"

definition stencil_line :: "InterpLevel \<Rightarrow> nat \<Rightarrow> nat \<Rightarrow> int \<Rightarrow> rat" where
  "stencil_line level axis d j =
     x_lower level ! d
     + (of_int (j - lower (physical_domain level ! 0) ! d) + (if d = axis then 0 else 1 / 2))
         * stencil_spacing level d"

definition lowest_stencil_line :: "InterpLevel \<Rightarrow> int \<Rightarrow> Index \<Rightarrow> rat list \<Rightarrow> nat \<Rightarrow> nat \<Rightarrow> int" where
  "lowest_stencil_line level s c X axis d =
     (let nearest_below = (if d = axis then c ! d
                           else if X ! d \<le> stencil_line level axis d (c ! d) then c ! d - 1
                           else c ! d)
      in nearest_below - (s div 2 - 1))"

definition centred_stencil_box :: "nat \<Rightarrow> InterpLevel \<Rightarrow> int \<Rightarrow> Index \<Rightarrow> rat list \<Rightarrow> nat \<Rightarrow> Box" where
  "centred_stencil_box NDIM level s c X axis =
     \<lparr>lower = map (lowest_stencil_line level s c X axis) [0..<NDIM],
      upper = map (\<lambda>d. lowest_stencil_line level s c X axis d + s - 1) [0..<NDIM]\<rparr>"

definition kernel_weights ::
  "nat \<Rightarrow> (rat \<Rightarrow> rat list) \<Rightarrow> InterpLevel \<Rightarrow> int \<Rightarrow> Index \<Rightarrow> rat list \<Rightarrow> nat \<Rightarrow> rat list list" where
  "kernel_weights NDIM interp_fcn level s c X axis =
     map (\<lambda>d. interp_fcn ((X ! d - stencil_line level axis d (lowest_stencil_line level s c X axis d))
                            / stencil_spacing level d))
         [0..<NDIM]"

definition kernel_row :: "nat \<Rightarrow> rat list list \<Rightarrow> Box \<Rightarrow> rat list" where
  "kernel_row NDIM w sb =
     map (\<lambda>i. prod_list (map (\<lambda>d. w ! d ! nat (i ! d - lower sb ! d)) [0..<NDIM]))
         (box_iterator sb)"

definition box_width :: "nat \<Rightarrow> int \<Rightarrow> Box \<Rightarrow> bool" where
  "box_width NDIM s sb \<longleftrightarrow> length (lower sb) = NDIM \<and> length (upper sb) = NDIM
     \<and> (\<forall>d < NDIM. upper sb ! d = lower sb ! d + s - 1)"

definition tensor_product_row ::
  "nat \<Rightarrow> (rat list \<Rightarrow> Index) \<Rightarrow> (rat \<Rightarrow> rat list) \<Rightarrow> int \<Rightarrow> rat list \<Rightarrow> InterpLevel
   \<Rightarrow> nat \<Rightarrow> nat \<Rightarrow> rat list" where
  "tensor_product_row NDIM getCellIndex interp_fcn s X_arr level k axis =
     (let X = take NDIM (drop (NDIM * k) X_arr);
          c = getCellIndex X
      in kernel_row NDIM (kernel_weights NDIM interp_fcn level s c X axis)
           (centred_stencil_box NDIM level s c X axis))"

text \<open>
  The columns of the row are the DOF indices the DOF index field has on the stencil box;
  the field is that of the patch the search has found for the cell of the point (the
  first patch overlapping the cell or, if there is none, the first overlapping the cell
  grown by one).  \<open>interp_row\<close> is the row of axis \<open>axis\<close> of point \<open>k\<close>: its number,
  its columns and its coefficients.
\<close>

definition found_patch :: "InterpLevel \<Rightarrow> Index \<Rightarrow> nat" where
  "found_patch level c =
     (if findOverlapIndices level \<lparr>lower = c, upper = c\<rparr> \<noteq> []
      then hd (findOverlapIndices level \<lparr>lower = c, upper = c\<rparr>)
      else hd (findOverlapIndices level
                 \<lparr>lower = map (\<lambda>x. x - 1) c, upper = map (\<lambda>x. x + 1) c\<rparr>))"

definition stencil_columns ::
  "nat \<Rightarrow> (rat list \<Rightarrow> Index) \<Rightarrow> int \<Rightarrow> rat list \<Rightarrow> InterpLevel \<Rightarrow> nat \<Rightarrow> nat \<Rightarrow> int list" where
  "stencil_columns NDIM getCellIndex s X_arr level k axis =
     (let X = take NDIM (drop (NDIM * k) X_arr);
          c = getCellIndex X
      in map (\<lambda>i. array (patch_dof_index_data level ! found_patch level c) axis i 0)
             (box_iterator (centred_stencil_box NDIM level s c X axis)))"

definition interp_row ::
  "nat \<Rightarrow> (rat list \<Rightarrow> Index) \<Rightarrow> (rat \<Rightarrow> rat list) \<Rightarrow> int \<Rightarrow> rat list \<Rightarrow> int \<Rightarrow> InterpLevel
   \<Rightarrow> nat \<Rightarrow> nat \<Rightarrow> int \<times> int list \<times> rat list" where
  "interp_row NDIM getCellIndex interp_fcn s X_arr X_lower level k axis =
     (X_lower + int (NDIM * k + axis),
      stencil_columns NDIM getCellIndex s X_arr level k axis,
      tensor_product_row NDIM getCellIndex interp_fcn s X_arr level k axis)"

section \<open>Products of doubles\<close>

text \<open>
  The coefficients are doubles, and the products of lines 596-600 are rounded.
  \<open>tensor_weight_rounded fmul\<close> is the loop
  \<^verbatim>\<open>stencil_box_vals[stencil_idx] *= w[d][i(d) - stencil_box_lower(d)]\<close>, started at 1.0,
  with the multiplication of doubles \<open>fmul\<close> in place of the exact product, and
  \<open>rounded_row\<close> the list of the coefficients it computes over a stencil box;
  \<open>rounded_product_row\<close> is the coefficient row of axis \<open>axis\<close> of point \<open>k\<close> computed
  this way.  \<open>relative_error u fmul\<close> says that \<open>fmul\<close> returns the product with a
  relative error of at most \<open>u\<close>: the multiplication of IEEE doubles, rounding to nearest,
  has \<open>u = 2^-53\<close> where the product neither overflows nor underflows.
\<close>

definition tensor_weight_rounded ::
  "(rat \<Rightarrow> rat \<Rightarrow> rat) \<Rightarrow> nat \<Rightarrow> rat list list \<Rightarrow> Index \<Rightarrow> Index \<Rightarrow> rat" where
  "tensor_weight_rounded fmul NDIM w lo i =
     foldl (\<lambda>v d. fmul v (w ! d ! nat (i ! d - lo ! d))) 1 [0..<NDIM]"

definition rounded_row :: "(rat \<Rightarrow> rat \<Rightarrow> rat) \<Rightarrow> nat \<Rightarrow> rat list list \<Rightarrow> Box \<Rightarrow> rat list" where
  "rounded_row fmul NDIM w sb = map (tensor_weight_rounded fmul NDIM w (lower sb)) (box_iterator sb)"

definition relative_error :: "rat \<Rightarrow> (rat \<Rightarrow> rat \<Rightarrow> rat) \<Rightarrow> bool" where
  "relative_error u fmul \<longleftrightarrow> (\<forall>a b. \<bar>fmul a b - a * b\<bar> \<le> u * \<bar>a * b\<bar>)"

definition rounded_product_row ::
  "(rat \<Rightarrow> rat \<Rightarrow> rat) \<Rightarrow> nat \<Rightarrow> (rat list \<Rightarrow> Index) \<Rightarrow> (rat \<Rightarrow> rat list) \<Rightarrow> int \<Rightarrow> rat list
   \<Rightarrow> InterpLevel \<Rightarrow> nat \<Rightarrow> nat \<Rightarrow> rat list" where
  "rounded_product_row fmul NDIM getCellIndex interp_fcn s X_arr level k axis =
     (let X = take NDIM (drop (NDIM * k) X_arr);
          c = getCellIndex X
      in rounded_row fmul NDIM (kernel_weights NDIM interp_fcn level s c X axis)
           (centred_stencil_box NDIM level s c X axis))"

section \<open>The assembled matrix\<close>

text \<open>
  \<open>MatSetValues(mat, 1, &row, n, cols, vals, INSERT_VALUES)\<close> of PETSc stores \<open>vals[j]\<close>
  at \<open>(row, cols[j])\<close> for \<open>j = 0, ..., n - 1\<close> in turn, replacing a value stored there
  before; an entry with a negative row or column index is ignored.  (The columns of the
  matrix are the global DOF numbers; a negative index is the sentinel of a masked
  location.)  A row of the matrix is kept as the list of its (column, value) pairs in the
  order of first insertion.  \<open>assembled_row\<close> is the row after the \<open>MatSetValues\<close> calls
  of a value phase, \<open>row_sum\<close> the sum of its values.
\<close>

fun insert_value :: "int \<Rightarrow> rat \<Rightarrow> (int \<times> rat) list \<Rightarrow> (int \<times> rat) list" where
  "insert_value c v [] = [(c, v)]"
| "insert_value c v (e # es) = (if fst e = c then (c, v) # es else e # insert_value c v es)"

definition MatSetValues :: "(int \<times> rat) list \<Rightarrow> int list \<Rightarrow> rat list \<Rightarrow> (int \<times> rat) list" where
  "MatSetValues es cols vals =
     foldl (\<lambda>es cv. if fst cv < 0 then es else insert_value (fst cv) (snd cv) es) es (zip cols vals)"

definition assembled_row :: "(int \<times> int list \<times> rat list) list \<Rightarrow> int \<Rightarrow> (int \<times> rat) list" where
  "assembled_row rows row =
     (if row < 0 then []
      else foldl (\<lambda>es e. MatSetValues es (fst (snd e)) (snd (snd e))) []
                 (filter (\<lambda>e. fst e = row) rows))"

definition row_sum :: "(int \<times> rat) list \<Rightarrow> rat" where
  "row_sum es = sum_list (map snd es)"

section \<open>A small level for concrete runs\<close>

text \<open>
  A two-dimensional level with one patch, the box [(0,0),(7,7)] with ghost width 3, unit
  grid spacing, side DOFs numbered \<open>2 * (i0 + 9 * i1) + axis\<close> where both coordinates are
  non-negative and masked (-1) elsewhere.  The box tree finds patch 0 for every box that
  meets the patch box.  The kernel has width 4 and constant weights 1/4.
\<close>

definition ex_data :: SideData where
  "ex_data = \<lparr>ghost_box = \<lparr>lower = [-3, -3], upper = [10, 10]\<rparr>, depth = 1,
     array = (\<lambda>axis i d. if 0 \<le> i ! 0 \<and> 0 \<le> i ! 1 then 2 * (i ! 0 + 9 * (i ! 1)) + int axis else -1)\<rparr>"

definition ex_level :: InterpLevel where
  "ex_level = \<lparr>x_lower = [0, 0], dx0 = [1, 1], level_ratio = [1, 1],
     physical_domain = [\<lparr>lower = [0, 0], upper = [7, 7]\<rparr>],
     findOverlapIndices = (\<lambda>b. if lower b ! 0 \<le> 7 \<and> 0 \<le> upper b ! 0 \<and> lower b ! 1 \<le> 7 \<and> 0 \<le> upper b ! 1 then [0] else []),
     patch_dof_index_data = [ex_data]\<rparr>"

definition ex_getCellIndex :: "rat list \<Rightarrow> Index" where
  "ex_getCellIndex X = map floor X"

definition ex_interp_fcn :: "rat \<Rightarrow> rat list" where
  "ex_interp_fcn r = [1 / 4, 1 / 4, 1 / 4, 1 / 4]"

text \<open>
  A multiplication that returns every product too large by the relative error \<open>2^-53\<close>.
\<close>

definition ex_fmul :: "rat \<Rightarrow> rat \<Rightarrow> rat" where
  "ex_fmul a b = a * b * (1 + 1 / 2 ^ 53)"

text \<open>
  The matrix of the point (7/2, 7/2) of this level, whose stencil boxes lie inside the
  patch, and the matrix of the point (1/4, 1/4) next to the lower boundary, whose stencil
  boxes [(-1,-2),(2,1)] and [(-2,-1),(1,2)] reach masked locations.
\<close>

definition ex_interp_op :: MatAIJ where
  "ex_interp_op =
     \<lparr>d_nnz = [16, 16], o_nnz = [0, 0],
      mat_rows =
        [(0, [22, 24, 26, 28, 40, 42, 44, 46, 58, 60, 62, 64, 76, 78, 80, 82],
          [1 / 16, 1 / 16, 1 / 16, 1 / 16, 1 / 16, 1 / 16, 1 / 16, 1 / 16,
           1 / 16, 1 / 16, 1 / 16, 1 / 16, 1 / 16, 1 / 16, 1 / 16, 1 / 16]),
         (1, [39, 41, 43, 45, 57, 59, 61, 63, 75, 77, 79, 81, 93, 95, 97, 99],
          [1 / 16, 1 / 16, 1 / 16, 1 / 16, 1 / 16, 1 / 16, 1 / 16, 1 / 16,
           1 / 16, 1 / 16, 1 / 16, 1 / 16, 1 / 16, 1 / 16, 1 / 16, 1 / 16])]\<rparr>"

definition ex_interp_bdry_op :: MatAIJ where
  "ex_interp_bdry_op =
     \<lparr>d_nnz = [6, 6], o_nnz = [0, 0],
      mat_rows =
        [(0, [-1, -1, -1, -1, -1, -1, -1, -1, -1, 0, 2, 4, -1, 18, 20, 22],
          [1 / 16, 1 / 16, 1 / 16, 1 / 16, 1 / 16, 1 / 16, 1 / 16, 1 / 16,
           1 / 16, 1 / 16, 1 / 16, 1 / 16, 1 / 16, 1 / 16, 1 / 16, 1 / 16]),
         (1, [-1, -1, -1, -1, -1, -1, 1, 3, -1, -1, 19, 21, -1, -1, 37, 39],
          [1 / 16, 1 / 16, 1 / 16, 1 / 16, 1 / 16, 1 / 16, 1 / 16, 1 / 16,
           1 / 16, 1 / 16, 1 / 16, 1 / 16, 1 / 16, 1 / 16, 1 / 16, 1 / 16])]\<rparr>"

text \<open>
  Two levels for a prolongation in two dimensions: the coarse domain is [(0,0),(3,3)], the
  fine level is refined by 2 and has one patch, the box [(2,2),(5,5)].  The coarse DOFs
  are numbered lexicographically and the application ordering is the identity.
\<close>

definition ex_mapIndexToInteger :: "Index \<Rightarrow> Index \<Rightarrow> Index \<Rightarrow> nat \<Rightarrow> int \<Rightarrow> int" where
  "ex_mapIndexToInteger i domain_lower num_cells d offset =
     (i ! 0 - domain_lower ! 0) + (i ! 1 - domain_lower ! 1) * num_cells ! 0
       + int d * num_cells ! 0 * num_cells ! 1 + offset"

definition ex_ao :: "int \<Rightarrow> int" where
  "ex_ao j = j"


definition ex_side_levels :: "(nat \<Rightarrow> Index \<Rightarrow> nat \<Rightarrow> int) TransferLevels" where
  "ex_side_levels =
     \<lparr>fine_patches =
        [\<lparr>patch_box = \<lparr>lower = [2, 2], upper = [5, 5]\<rparr>,
          patch_data = \<lparr>ghost_box = \<lparr>lower = [1, 1], upper = [6, 6]\<rparr>, depth = 1,
                         array = (\<lambda>axis i d. if axis = 0 then (i ! 0 - 2) + 5 * (i ! 1 - 2)
                                              else 20 + (i ! 0 - 2) + 4 * (i ! 1 - 2))\<rparr>\<rparr>],
      fine_ratio = [2, 2], coarse_ratio = [1, 1],
      coarse_domain_boxes = [\<lparr>lower = [0, 0], upper = [3, 3]\<rparr>]\<rparr>"

text \<open>The matrix the side-centred prolongation builds on these two levels.\<close>

definition ex_side_op :: MatAIJ where
  "ex_side_op =
     \<lparr>d_nnz = replicate 40 2, o_nnz = replicate 40 0,
        mat_rows =
          [(0, [6, 7], [1, 0]), (1, [6, 7], [1 / 2, 1 / 2]),
           (2, [7, 8], [1, 0]), (3, [7, 8], [1 / 2, 1 / 2]),
           (4, [8, 9], [1, 0]), (5, [6, 7], [1, 0]),
           (6, [6, 7], [1 / 2, 1 / 2]), (7, [7, 8], [1, 0]),
           (8, [7, 8], [1 / 2, 1 / 2]), (9, [8, 9], [1, 0]),
           (10, [11, 12], [1, 0]), (11, [11, 12], [1 / 2, 1 / 2]),
           (12, [12, 13], [1, 0]), (13, [12, 13], [1 / 2, 1 / 2]),
           (14, [13, 14], [1, 0]), (15, [11, 12], [1, 0]),
           (16, [11, 12], [1 / 2, 1 / 2]), (17, [12, 13], [1, 0]),
           (18, [12, 13], [1 / 2, 1 / 2]), (19, [13, 14], [1, 0]),
           (20, [25, 29], [1, 0]), (21, [25, 29], [1, 0]),
           (22, [26, 30], [1, 0]), (23, [26, 30], [1, 0]),
           (24, [25, 29], [1 / 2, 1 / 2]), (25, [25, 29], [1 / 2, 1 / 2]),
           (26, [26, 30], [1 / 2, 1 / 2]), (27, [26, 30], [1 / 2, 1 / 2]),
           (28, [29, 33], [1, 0]), (29, [29, 33], [1, 0]),
           (30, [30, 34], [1, 0]), (31, [30, 34], [1, 0]),
           (32, [29, 33], [1 / 2, 1 / 2]), (33, [29, 33], [1 / 2, 1 / 2]),
           (34, [30, 34], [1 / 2, 1 / 2]), (35, [30, 34], [1 / 2, 1 / 2]),
           (36, [33, 37], [1, 0]), (37, [33, 37], [1, 0]),
           (38, [34, 38], [1, 0]), (39, [34, 38], [1, 0])]\<rparr>"

text \<open>
  The same two levels with a fine patch in the upper right corner of the domain: the box
  [(6,6),(7,7)], whose upper faces lie on the domain boundary.
\<close>

definition ex_side_bdry_levels :: "(nat \<Rightarrow> Index \<Rightarrow> nat \<Rightarrow> int) TransferLevels" where
  "ex_side_bdry_levels =
     \<lparr>fine_patches =
        [\<lparr>patch_box = \<lparr>lower = [6, 6], upper = [7, 7]\<rparr>,
          patch_data = \<lparr>ghost_box = \<lparr>lower = [5, 5], upper = [8, 8]\<rparr>, depth = 1,
                         array = (\<lambda>axis i d. if axis = 0 then (i ! 0 - 6) + 3 * (i ! 1 - 6)
                                              else 6 + (i ! 0 - 6) + 2 * (i ! 1 - 6))\<rparr>\<rparr>],
      fine_ratio = [2, 2], coarse_ratio = [1, 1],
      coarse_domain_boxes = [\<lparr>lower = [0, 0], upper = [3, 3]\<rparr>]\<rparr>"

text \<open>
  A side-centred level with one patch, the box [(0,0),(1,1)] with ghost width 1 on the
  physical boundary, and a partitioner that makes one sub-box of every patch.
\<close>

definition ex_partitionPatchBox :: "Box \<Rightarrow> int list \<Rightarrow> int list \<Rightarrow> Box list \<times> Box list" where
  "ex_partitionPatchBox b box_size overlap_size =
     ([\<lparr>lower = map2 (-) (lower b) overlap_size,
        upper = map2 (+) (upper b) overlap_size\<rparr>], [b])"

definition ex_side_patch :: "(nat \<Rightarrow> Index \<Rightarrow> nat \<Rightarrow> int) SidePatch" where
  "ex_side_patch =
     \<lparr>patch_box = \<lparr>lower = [0, 0], upper = [1, 1]\<rparr>,
      patch_data = \<lparr>ghost_box = \<lparr>lower = [-1, -1], upper = [2, 2]\<rparr>, depth = 1,
                     array = (\<lambda>axis i d. if 0 \<le> i ! 0 \<and> 0 \<le> i ! 1
                                          then (if axis = 0 then i ! 0 + 3 * (i ! 1)
                                                else 6 + i ! 0 + 2 * (i ! 1))
                                          else -1)\<rparr>,
      intersectsPhysicalBoundary = True,
      getTouchesRegularBoundary = (\<lambda>axis upperlower. True),
      getBoundaries = []\<rparr>"

text \<open>
  The state after partitioning a level of two such patches with zero overlap, for a call
  that is handed one index set in its overlap vector (object 0, referenced once): the
  old set is released, and each of the two sub-boxes gets one new object.
\<close>

definition ex_asm_state :: ASMState where
  "ex_asm_state =
     \<lparr>petsc_objects =
        [\<lparr>refct = 0, indices = [5]\<rparr>,
         \<lparr>refct = 2, indices = [0, 1, 2, 3, 4, 5, 6, 7, 8, 9, 10, 11]\<rparr>,
         \<lparr>refct = 2, indices = [0, 1, 2, 3, 4, 5, 6, 7, 8, 9, 10, 11]\<rparr>],
      is_overlap = [Some 1, Some 2], is_nonoverlap = [Some 1, Some 2],
      subdomain_counter = 2\<rparr>"

text \<open>
  A cell-centred level with one patch of 3 by 3 cells, numbered lexicographically, with
  ghost width 1 and masked ghost cells; the coefficients are those of the 5-point
  Laplacian.  With three processes owning three DOFs each, process 1 owns the middle row.
\<close>

definition ex_laplace_patch :: "(Index \<Rightarrow> nat \<Rightarrow> int) Patch" where
  "ex_laplace_patch =
     \<lparr>patch_box = \<lparr>lower = [0, 0], upper = [2, 2]\<rparr>,
      patch_data = \<lparr>ghost_box = \<lparr>lower = [-1, -1], upper = [3, 3]\<rparr>, depth = 1,
                     array = (\<lambda>i d. if 0 \<le> i ! 0 \<and> i ! 0 \<le> 2 \<and> 0 \<le> i ! 1 \<and> i ! 1 \<le> 2
                                     then i ! 0 + 3 * (i ! 1) else -1)\<rparr>\<rparr>"

definition ex_coefficients :: "(Index \<Rightarrow> nat \<Rightarrow> int) Patch \<Rightarrow> Index list \<Rightarrow> Index \<Rightarrow> nat \<Rightarrow> rat" where
  "ex_coefficients patch stencil i k = (if k = 0 then 4 else -1)"

definition ex_laplace_ranges :: index_ranges where
  "ex_laplace_ranges = \<lparr>n_local = 3, i_lower = 3, i_upper = 6, n_total = 9\<rparr>"

definition ex_laplace_op :: MatAIJ where
  "ex_laplace_op =
     \<lparr>d_nnz = [2, 3, 2], o_nnz = [3, 2, 3],
      mat_rows = [(3, [3, - 1, 4, 0, 6], [4, - 1, - 1, - 1, - 1]),
                  (4, [4, 3, 5, 1, 7], [4, - 1, - 1, - 1, - 1]),
                  (5, [5, 4, - 1, 2, 8], [4, - 1, - 1, - 1, - 1])]\<rparr>"

section \<open>The containment helper, characterised\<close>

lemma is_cf_bdry_idx_loop_found:
  "is_cf_bdry_idx_loop idx bs k True = Inr True"
proof (induction "length bs - k" arbitrary: k)
  case 0
  then show ?case by (simp add: is_cf_bdry_idx_loop.simps [of idx bs k True])
next
  case (Suc n)
  then have "is_cf_bdry_idx_loop idx bs (k + 1) True = Inr True" by simp
  then show ?case by (simp add: is_cf_bdry_idx_loop.simps [of idx bs k True])
qed

lemma is_cf_bdry_idx_loop_search:
  "is_cf_bdry_idx_loop idx bs k False =
     (if \<exists>j. k \<le> j \<and> j < length bs \<and> box_contains (bs ! j) idx then Inr True
      else Inl OutOfBounds)"
proof (induction "length bs - k" arbitrary: k)
  case 0
  then show ?case by (simp add: is_cf_bdry_idx_loop.simps [of idx bs k False])
next
  case (Suc n)
  then have lt: "k < length bs" by simp
  show ?case
  proof (cases "box_contains (bs ! k) idx")
    case True
    then show ?thesis
      using lt by (auto simp: is_cf_bdry_idx_loop.simps [of idx bs k False]
          is_cf_bdry_idx_loop_found)
  next
    case False
    have "n = length bs - (k + 1)" using Suc.hyps(2) by simp
    then have ih: "is_cf_bdry_idx_loop idx bs (k + 1) False =
      (if \<exists>j. k + 1 \<le> j \<and> j < length bs \<and> box_contains (bs ! j) idx then Inr True
       else Inl OutOfBounds)"
      by (rule Suc.hyps(1))
    have "(\<exists>j. k + 1 \<le> j \<and> j < length bs \<and> box_contains (bs ! j) idx)
      \<longleftrightarrow> (\<exists>j. k \<le> j \<and> j < length bs \<and> box_contains (bs ! j) idx)"
      using False by (metis Suc_eq_plus1 Suc_leI le_eq_less_or_eq Suc_leD)
    then show ?thesis
      using lt False ih by (simp add: is_cf_bdry_idx_loop.simps [of idx bs k False])
  qed
qed

lemma is_cf_bdry_idx_char:
  "is_cf_bdry_idx idx bs =
     (if \<exists>b \<in> set bs. box_contains b idx then Inr True else Inl OutOfBounds)"
proof -
  have "(\<exists>j. 0 \<le> j \<and> j < length bs \<and> box_contains (bs ! j) idx)
    \<longleftrightarrow> (\<exists>b \<in> set bs. box_contains b idx)"
    by (metis in_set_conv_nth le0)
  then show ?thesis
    by (simp add: is_cf_bdry_idx_def is_cf_bdry_idx_loop_search)
qed

text \<open>
  C10.  The claim: for every index and every list of boxes, also when no box contains the
  index, the helper terminates, reads only positions below the list's length and returns
  true exactly when some box contains the index.  On the code this fails whenever no box
  contains the index: the loop condition \<open>!contains_idx || k < n\<close> stays true, so the
  loop walks past the end of the vector.  Here the index (4,3) lies on the upper face of a
  patch whose only coarse-fine boundary box there is [(4,0),(4,1)]: the helper reads
  position 1 of a vector of length 1 instead of returning false.
\<close>

theorem is_cf_bdry_idx_reads_past_end:
  "is_cf_bdry_idx [4, 3] [\<lparr>lower = [4, 0], upper = [4, 1]\<rparr>] = Inl OutOfBounds"
  by (simp add: is_cf_bdry_idx_char box_contains_def)

section \<open>Ownership ranges tile the DOF space\<close>

lemma int32_eq: "- (2 ^ 31) \<le> x \<Longrightarrow> x < 2 ^ 31 \<Longrightarrow> int32 x = x"
  by (simp add: int32_def)

lemma accumulate_snoc: "accumulate (xs @ [x]) = int32 (accumulate xs + x)"
  by (simp add: accumulate_def)

lemma accumulate_sum_list:
  assumes "\<forall>c \<in> set xs. 0 \<le> c" "sum_list xs < 2 ^ 31"
  shows "accumulate xs = sum_list xs"
  using assms
proof (induction xs rule: rev_induct)
  case Nil
  then show ?case by (simp add: accumulate_def)
next
  case (snoc x xs)
  have nn: "0 \<le> sum_list xs" "0 \<le> x"
    using snoc.prems(1) by (simp_all add: sum_list_nonneg)
  then have "accumulate xs = sum_list xs"
    using snoc by simp
  then show ?case
    using nn snoc.prems(2) by (simp add: accumulate_snoc int32_eq)
qed

lemma sum_list_take_mono:
  assumes "\<forall>c \<in> set cs. (0::int) \<le> c" "r \<le> s"
  shows "sum_list (take r cs) \<le> sum_list (take s cs)"
proof -
  have "take s cs = take r cs @ take (s - r) (drop r cs)"
    using assms(2) by (metis le_add_diff_inverse take_add)
  moreover have "0 \<le> sum_list (take (s - r) (drop r cs))"
    using assms(1) by (intro sum_list_nonneg) (meson in_set_dropD in_set_takeD)
  ultimately show ?thesis by simp
qed

lemma sum_list_take_le:
  assumes "\<forall>c \<in> set cs. (0::int) \<le> c"
  shows "sum_list (take r cs) \<le> sum_list cs"
  using sum_list_take_mono [OF assms, of r "max r (length cs)"] by simp

lemma determine_index_ranges_Inr:
  assumes "determine_index_ranges cs r = Inr R"
    and "\<forall>c \<in> set cs. 0 \<le> c" and "sum_list cs < 2 ^ 31"
  shows "r < length cs" "n_local R = cs ! r" "i_lower R = sum_list (take r cs)"
    "i_upper R = i_lower R + n_local R" "n_total R = sum_list cs"
proof -
  from assms(1) show r: "r < length cs"
    by (simp add: determine_index_ranges_def split: if_splits)
  have nn: "\<forall>c \<in> set (take r cs). 0 \<le> c"
    using assms(2) by (meson in_set_takeD)
  have le: "sum_list (take r cs) < 2 ^ 31"
    using sum_list_take_le [OF assms(2), of r] assms(3) by simp
  have lo: "accumulate (take r cs) = sum_list (take r cs)"
    by (rule accumulate_sum_list [OF nn le])
  have "sum_list (take (Suc r) cs) \<le> sum_list cs"
    by (rule sum_list_take_le [OF assms(2)])
  moreover have "sum_list (take (Suc r) cs) = sum_list (take r cs) + cs ! r"
    using r by (simp add: take_Suc_conv_app_nth)
  moreover have "0 \<le> sum_list (take r cs)" "0 \<le> cs ! r"
    using nn r assms(2) by (simp_all add: sum_list_nonneg)
  ultimately have up: "int32 (sum_list (take r cs) + cs ! r) = sum_list (take r cs) + cs ! r"
    using assms(3) by (intro int32_eq) simp_all
  from assms(1) r show "n_local R = cs ! r" "i_lower R = sum_list (take r cs)"
    "i_upper R = i_lower R + n_local R" "n_total R = sum_list cs"
    by (auto simp: determine_index_ranges_def Let_def lo up
        accumulate_sum_list [OF assms(2,3)])
qed

lemma ownership_range_eq:
  assumes "r < length cs" "\<forall>c \<in> set cs. 0 \<le> c" "sum_list cs < 2 ^ 31"
  shows "ownership_range cs r = {sum_list (take r cs) ..< sum_list (take r cs) + cs ! r}"
proof -
  from assms(1) obtain R where R: "determine_index_ranges cs r = Inr R"
    by (simp add: determine_index_ranges_def Let_def)
  from determine_index_ranges_Inr [OF R assms(2,3)] R show ?thesis
    by (simp add: ownership_range_def)
qed

lemma ownership_ranges_union:
  assumes "\<forall>c \<in> set cs. 0 \<le> c" "sum_list cs < 2 ^ 31"
  shows "(\<Union>r < length cs. ownership_range cs r) = {0 ..< sum_list cs}"
proof -
  have "(\<Union>r < n. ownership_range cs r) = {0 ..< sum_list (take n cs)}" if "n \<le> length cs" for n
    using that
  proof (induction n)
    case 0
    then show ?case by simp
  next
    case (Suc n)
    then have n: "n < length cs" by simp
    have nn: "0 \<le> sum_list (take n cs)" "0 \<le> cs ! n"
      using assms(1) n by (auto intro!: sum_list_nonneg dest: in_set_takeD)
    have "(\<Union>r < Suc n. ownership_range cs r)
        = ownership_range cs n \<union> (\<Union>r < n. ownership_range cs r)"
      by (simp add: lessThan_Suc)
    also have "\<dots> = {sum_list (take n cs) ..< sum_list (take n cs) + cs ! n}
        \<union> {0 ..< sum_list (take n cs)}"
      using Suc n by (simp add: ownership_range_eq [OF n assms])
    also have "\<dots> = {0 ..< sum_list (take (Suc n) cs)}"
      using nn n by (auto simp: take_Suc_conv_app_nth)
    finally show ?case .
  qed
  from this [of "length cs"] show ?thesis by simp
qed

lemma ownership_ranges_ordered:
  assumes "\<forall>c \<in> set cs. 0 \<le> c" "sum_list cs < 2 ^ 31" "r < s" "s < length cs"
  shows "ownership_range cs r \<inter> ownership_range cs s = {}"
proof -
  have r: "r < length cs" using assms(3,4) by simp
  have "sum_list (take (Suc r) cs) \<le> sum_list (take s cs)"
    using assms by (intro sum_list_take_mono) simp_all
  moreover have "sum_list (take (Suc r) cs) = sum_list (take r cs) + cs ! r"
    using r by (simp add: take_Suc_conv_app_nth)
  ultimately show ?thesis
    by (auto simp: ownership_range_eq [OF r assms(1,2)] ownership_range_eq [OF assms(4,1,2)])
qed

text \<open>
  The claim of C1 fails where the total leaves the range of an \<open>int\<close>: for the counts
  2147483647 and 1 the sum wraps to -2147483648, so rank 1 gets \<open>i_lower = 2147483647\<close>
  and \<open>i_upper = n_total = -2147483648\<close>.  Its range is empty, DOF 2147483647 belongs to
  no rank, and the union of the ranges is neither \<open>[0, 2147483648)\<close> nor \<open>[0, n_total)\<close>.
\<close>

theorem ownership_ranges_overflow:
  "determine_index_ranges [2147483647, 1] 1
     = Inr \<lparr>n_local = 1, i_lower = 2147483647, i_upper = - 2147483648, n_total = - 2147483648\<rparr>
   \<and> ownership_range [2147483647, 1] 0 \<union> ownership_range [2147483647, 1] 1 = {0 ..< 2147483647}
   \<and> ownership_range [2147483647, 1] 0 \<union> ownership_range [2147483647, 1] 1
       \<noteq> {0 ..< 2147483647 + 1}
   \<and> ownership_range [2147483647, 1] 0 \<union> ownership_range [2147483647, 1] 1
       \<noteq> {0 ..< accumulate [2147483647, 1]}"
proof -
  have R0: "determine_index_ranges [2147483647, 1] 0
     = Inr \<lparr>n_local = 2147483647, i_lower = 0, i_upper = 2147483647, n_total = - 2147483648\<rparr>"
    by (simp add: determine_index_ranges_def accumulate_def int32_def)
  have R1: "determine_index_ranges [2147483647, 1] 1
     = Inr \<lparr>n_local = 1, i_lower = 2147483647, i_upper = - 2147483648, n_total = - 2147483648\<rparr>"
    by (simp add: determine_index_ranges_def accumulate_def int32_def)
  have u: "ownership_range [2147483647, 1] 0 \<union> ownership_range [2147483647, 1] 1
      = {0 ..< 2147483647}"
    unfolding ownership_range_def R0 R1 by simp
  have "(2147483647 :: int) \<in> {0 ..< 2147483647 + 1}" by simp
  then have "{0 ..< 2147483647} \<noteq> {0 ..< 2147483647 + (1 :: int)}" by auto
  moreover have "accumulate [2147483647, 1] = - 2147483648"
    by (simp add: accumulate_def int32_def)
  moreover have "(0 :: int) \<in> {0 ..< 2147483647}" by simp
  ultimately show ?thesis
    unfolding u using R1 by auto
qed

text \<open>
  C1, as amended.  For every vector of non-negative per-process DOF counts whose total is
  at most \<open>2^31 - 1\<close>, the largest \<open>int\<close>, the total the code computes is the sum of the
  counts, and the ranges \<open>[i_lower, i_upper)\<close> computed for the ranks of the vector are
  pairwise disjoint and their union is exactly \<open>[0, n_total)\<close>.
\<close>

theorem ownership_ranges_tile:
  assumes "\<forall>c \<in> set num_dofs_per_proc. 0 \<le> c"
    and "sum_list num_dofs_per_proc < 2 ^ 31"
  shows "accumulate num_dofs_per_proc = sum_list num_dofs_per_proc
       \<and> (\<Union>r < length num_dofs_per_proc. ownership_range num_dofs_per_proc r)
           = {0 ..< accumulate num_dofs_per_proc}
       \<and> (\<forall>r < length num_dofs_per_proc. \<forall>s < length num_dofs_per_proc.
            r \<noteq> s \<longrightarrow> ownership_range num_dofs_per_proc r
                           \<inter> ownership_range num_dofs_per_proc s = {})"
proof (intro conjI allI impI)
  show "accumulate num_dofs_per_proc = sum_list num_dofs_per_proc"
    by (rule accumulate_sum_list [OF assms])
  show "(\<Union>r < length num_dofs_per_proc. ownership_range num_dofs_per_proc r)
           = {0 ..< accumulate num_dofs_per_proc}"
    by (simp add: ownership_ranges_union [OF assms] accumulate_sum_list [OF assms])
next
  fix r s
  assume "r < length num_dofs_per_proc" "s < length num_dofs_per_proc" "r \<noteq> s"
  then consider "r < s" | "s < r" by linarith
  then show "ownership_range num_dofs_per_proc r \<inter> ownership_range num_dofs_per_proc s = {}"
  proof cases
    case 1
    show ?thesis
      by (rule ownership_ranges_ordered [OF assms 1 \<open>s < length num_dofs_per_proc\<close>])
  next
    case 2
    have "ownership_range num_dofs_per_proc s \<inter> ownership_range num_dofs_per_proc r = {}"
      by (rule ownership_ranges_ordered [OF assms 2 \<open>r < length num_dofs_per_proc\<close>])
    then show ?thesis by blast
  qed
qed

theorem ownership_ranges_tile_witness:
  "accumulate [3, 0, 2] = 5
   \<and> (\<Union>r < length [3, 0, 2 :: int]. ownership_range [3, 0, 2] r) = {0 ..< 5}
   \<and> ownership_range [3, 0, 2] 0 \<inter> ownership_range [3, 0, 2] 2 = {}"
proof -
  have h: "\<forall>c \<in> set [3, 0, 2 :: int]. 0 \<le> c" by simp
  have b: "sum_list [3, 0, 2 :: int] < 2 ^ 31" by simp
  have a: "accumulate [3, 0, 2] = 5" by (simp add: accumulate_def int32_def)
  show ?thesis
    using ownership_ranges_tile [OF h b] by (simp add: a)
qed

section \<open>Failure propagation\<close>

lemma bind_Inl_iff: "bind m f = Inl e \<longleftrightarrow> m = Inl e \<or> (\<exists>x. m = Inr x \<and> f x = Inl e)"
  by (cases m) (simp_all add: bind_def)

lemma bind_Inr_iff: "bind m f = Inr y \<longleftrightarrow> (\<exists>x. m = Inr x \<and> f x = Inr y)"
  by (cases m) (simp_all add: bind_def)

lemma mapM_Inl: "mapM f xs = Inl e \<Longrightarrow> \<exists>x \<in> set xs. f x = Inl e"
  by (induction xs) (auto simp: bind_Inl_iff)

lemma foldM_Inl: "foldM f s xs = Inl e \<Longrightarrow> \<exists>s' x. x \<in> set xs \<and> f s' x = Inl e"
proof (induction xs arbitrary: s)
  case Nil
  then show ?case by simp
next
  case (Cons a xs)
  then show ?case
    by (simp add: bind_Inl_iff) blast
qed

lemma mapM_Inr: "mapM f xs = Inr ys \<longleftrightarrow> list_all2 (\<lambda>x y. f x = Inr y) xs ys"
  by (induction xs arbitrary: ys) (auto simp: bind_Inr_iff list_all2_Cons1)

lemma TBOX_ASSERT_not_odd: "TBOX_ASSERT ndebug c \<noteq> Inl odd_stencil_error"
  by (simp add: TBOX_ASSERT_def odd_stencil_error_def)

lemma read_at_Inl: "read_at xs i = Inl e \<Longrightarrow> e = OutOfBounds"
  by (simp add: read_at_def split: if_splits)

lemma side_read_Inl: "side_read data axis i d = Inl e \<Longrightarrow> e = OutOfBounds"
  by (simp add: side_read_def split: if_splits)

lemma odd_stencil_error_neq: "odd_stencil_error \<noteq> OutOfBounds"
  by (simp add: odd_stencil_error_def)

lemma find_patch_not_odd: "snd (find_patch ndebug f X_idx) \<noteq> Inl odd_stencil_error"
  by (auto simp: find_patch_def Let_def bind_Inl_iff TBOX_ASSERT_not_odd odd_stencil_error_neq
      dest!: read_at_Inl)

lemma interp_count_axis_not_odd:
  "interp_stencil smod 2 = 0 \<Longrightarrow>
   interp_count_axis ndebug NDIM interp_stencil R data X_idx X X_cell axis \<noteq> Inl odd_stencil_error"
  by (auto simp: interp_count_axis_def Let_def bind_Inl_iff TBOX_ASSERT_not_odd
      odd_stencil_error_neq dest!: foldM_Inl side_read_Inl)

lemma interp_count_point_not_odd:
  "interp_stencil smod 2 = 0 \<Longrightarrow>
   interp_count_point ndebug NDIM getCellIndex interp_stencil R level dx domain_lower X_arr k
     \<noteq> Inl odd_stencil_error"
  by (auto simp: interp_count_point_def Let_def bind_Inl_iff TBOX_ASSERT_not_odd
      odd_stencil_error_neq find_patch_not_odd interp_count_axis_not_odd
      dest!: mapM_Inl read_at_Inl)

lemma tensor_weight_Inl: "tensor_weight NDIM w lo i = Inl e \<Longrightarrow> e = OutOfBounds"
  by (auto simp: tensor_weight_def bind_Inl_iff dest!: foldM_Inl read_at_Inl)

lemma interp_values_axis_Inl:
  "interp_values_axis NDIM interp_fcn level dx domain_lower X_lower data X k sb axis = Inl e
   \<Longrightarrow> e = OutOfBounds"
  by (auto simp: interp_values_axis_def Let_def bind_Inl_iff
      dest!: mapM_Inl tensor_weight_Inl side_read_Inl)

lemma resize_weights_not_odd: "resize_weights NDIM s \<noteq> Inl odd_stencil_error"
  by (simp add: resize_weights_def odd_stencil_error_def)

lemma interp_values_point_not_odd:
  "interp_values_point ndebug NDIM interp_fcn s level dx domain_lower X_lower X_arr p
     \<noteq> Inl odd_stencil_error"
  by (auto simp: interp_values_point_def Let_def bind_Inl_iff TBOX_ASSERT_not_odd
      odd_stencil_error_neq resize_weights_not_odd split: prod.splits
      dest!: mapM_Inl read_at_Inl interp_values_axis_Inl)

lemma determine_index_ranges_Inl:
  "determine_index_ranges cs r = Inl e \<Longrightarrow> e = OutOfBounds"
  by (simp add: determine_index_ranges_def Let_def split: if_splits)

lemma round_interp_stencil_even: "round_interp_stencil w smod 2 = 0"
proof -
  have "\<bar>w\<bar> mod 2 = 0 \<or> \<bar>w + 1\<bar> mod 2 = 0" by presburger
  then show ?thesis
    by (auto simp: round_interp_stencil_def smod_int_alt_def)
qed

lemma round_interp_stencil_odd: "w smod 2 \<noteq> 0 \<Longrightarrow> round_interp_stencil (w + 1) = round_interp_stencil w"
proof -
  assume "w smod 2 \<noteq> 0"
  moreover have "\<bar>w\<bar> mod 2 = 0 \<or> \<bar>w + 1\<bar> mod 2 = 0" by presburger
  ultimately show ?thesis
    by (auto simp: round_interp_stencil_def smod_int_alt_def)
qed

lemma interp_no_odd: "constructPatchLevelSCInterpOp ndebug NDIM mpi_rank getCellIndex interp_fcn interp_stencil
       X_arr X_lower num_dofs_per_proc level \<noteq> Inl odd_stencil_error"
  by (auto simp: constructPatchLevelSCInterpOp_def Let_def bind_Inl_iff TBOX_ASSERT_not_odd
      odd_stencil_error_neq interp_count_point_not_odd round_interp_stencil_even
      interp_values_point_not_odd
      dest!: mapM_Inl read_at_Inl determine_index_ranges_Inl)

text \<open>
  C8, as amended.  The claim: every odd interpolation-stencil width is rejected with a
  fatal configuration error and never silently repaired.  The code does the opposite by
  its first statement: an odd width is incremented to the next even width, so the call
  with an odd width returns exactly what the call with that width plus one returns, and
  the odd-width error of the stencil-box loop is never the outcome, for any input.
\<close>

theorem interp_odd_width_rounded_up:
  "constructPatchLevelSCInterpOp ndebug NDIM mpi_rank getCellIndex interp_fcn interp_stencil
       X_arr X_lower num_dofs_per_proc level \<noteq> Inl odd_stencil_error
   \<and> (interp_stencil smod 2 \<noteq> 0 \<longrightarrow>
        constructPatchLevelSCInterpOp ndebug NDIM mpi_rank getCellIndex interp_fcn interp_stencil
          X_arr X_lower num_dofs_per_proc level
        = constructPatchLevelSCInterpOp ndebug NDIM mpi_rank getCellIndex interp_fcn
            (interp_stencil + 1) X_arr X_lower num_dofs_per_proc level)"
proof (intro conjI impI)
  show "constructPatchLevelSCInterpOp ndebug NDIM mpi_rank getCellIndex interp_fcn interp_stencil
       X_arr X_lower num_dofs_per_proc level \<noteq> Inl odd_stencil_error"
    by (rule interp_no_odd)
next
  assume "interp_stencil smod 2 \<noteq> 0"
  then have "round_interp_stencil (interp_stencil + 1) = round_interp_stencil interp_stencil"
    by (rule round_interp_stencil_odd)
  then show "constructPatchLevelSCInterpOp ndebug NDIM mpi_rank getCellIndex interp_fcn
          interp_stencil X_arr X_lower num_dofs_per_proc level
        = constructPatchLevelSCInterpOp ndebug NDIM mpi_rank getCellIndex interp_fcn
            (interp_stencil + 1) X_arr X_lower num_dofs_per_proc level"
    by (simp add: constructPatchLevelSCInterpOp_def)
qed

text \<open>
  The claim of C8 fails at width 3: with one point at (3.5, 3.5) on the small level the call
  does not abort; it returns a matrix whose two rows have 4 * 4 columns each, the stencil
  of the even width 4.
\<close>

theorem interp_odd_width_not_rejected:
  "constructPatchLevelSCInterpOp False 2 0 ex_getCellIndex ex_interp_fcn 3 [7 / 2, 7 / 2] 0 [200]
     ex_level
   = Inr \<lparr>d_nnz = [16, 16], o_nnz = [0, 0],
          mat_rows =
            [(0, [22, 24, 26, 28, 40, 42, 44, 46, 58, 60, 62, 64, 76, 78, 80, 82],
              [1 / 16, 1 / 16, 1 / 16, 1 / 16, 1 / 16, 1 / 16, 1 / 16, 1 / 16,
               1 / 16, 1 / 16, 1 / 16, 1 / 16, 1 / 16, 1 / 16, 1 / 16, 1 / 16]),
             (1, [39, 41, 43, 45, 57, 59, 61, 63, 75, 77, 79, 81, 93, 95, 97, 99],
              [1 / 16, 1 / 16, 1 / 16, 1 / 16, 1 / 16, 1 / 16, 1 / 16, 1 / 16,
               1 / 16, 1 / 16, 1 / 16, 1 / 16, 1 / 16, 1 / 16, 1 / 16, 1 / 16])]\<rparr>"
  by code_simp

theorem interp_odd_width_rounded_up_witness:
  "(3 :: int) smod 2 \<noteq> 0
   \<and> constructPatchLevelSCInterpOp False 2 0 ex_getCellIndex ex_interp_fcn 3 [7 / 2, 7 / 2] 0
       [200] ex_level
     = constructPatchLevelSCInterpOp False 2 0 ex_getCellIndex ex_interp_fcn 4 [7 / 2, 7 / 2] 0
       [200] ex_level"
proof -
  have odd: "(3 :: int) smod 2 \<noteq> 0" by (simp add: smod_int_alt_def)
  show ?thesis
    using odd interp_odd_width_rounded_up [of False 2 0 ex_getCellIndex ex_interp_fcn 3
        "[7 / 2, 7 / 2]" 0 "[200]" ex_level]
    by simp
qed

lemma find_patch_char:
  "find_patch ndebug fnd X_idx =
     (let box = \<lparr>lower = X_idx, upper = X_idx\<rparr>;
          box' = \<lparr>lower = map (\<lambda>x. x - 1) X_idx, upper = map (\<lambda>x. x + 1) X_idx\<rparr>
      in if fnd box \<noteq> [] then ([box], Inr (hd (fnd box)))
         else ([box, box'],
               if fnd box' \<noteq> [] then Inr (hd (fnd box'))
               else if ndebug then Inl OutOfBounds else Inl (Abort ''Failed assertion'')))"
  by (auto simp: find_patch_def Let_def grow_def read_at_def bind_def TBOX_ASSERT_def hd_conv_nth)

lemma mapM_fails:
  "x \<in> set xs \<Longrightarrow> f x = Inl e \<Longrightarrow> \<exists>e'. mapM f xs = Inl e'"
proof (induction xs)
  case Nil
  then show ?case by simp
next
  case (Cons a xs)
  show ?case
  proof (cases "f a")
    case (Inl e0)
    then show ?thesis by (simp add: bind_def)
  next
    case (Inr y)
    with Cons have "x \<in> set xs" by auto
    then obtain e' where "mapM f xs = Inl e'" using Cons by blast
    then show ?thesis using Inr by (simp add: bind_def)
  qed
qed

lemma bind_fails: "m = Inl e \<Longrightarrow> \<exists>e'. bind m f = Inl e'"
  by (simp add: bind_def)

lemma bind_fails2: "(\<And>x. \<exists>e'. f x = Inl e') \<Longrightarrow> \<exists>e'. bind m f = Inl e'"
  by (cases m) (simp_all add: bind_def)

text \<open>
  C9, as amended.  The search for the patch of a point first asks the box tree for the
  boxes overlapping the single cell of the point.  If there is none, the search box is
  grown by exactly one cell in every direction and the box tree is asked exactly once
  more.  If that search is empty too and assertions are compiled in (\<open>NDEBUG\<close> not
  defined), the assertion fails and the whole assembly call returns an error and no
  matrix.  With \<open>NDEBUG\<close> defined nothing checks the second result, and element 0 of the
  empty array is read.
\<close>

theorem interp_point_search:
  "find_patch ndebug (findOverlapIndices level) X_idx =
     (let box = \<lparr>lower = X_idx, upper = X_idx\<rparr>;
          box' = \<lparr>lower = map (\<lambda>x. x - 1) X_idx, upper = map (\<lambda>x. x + 1) X_idx\<rparr>
      in if findOverlapIndices level box \<noteq> [] then ([box], Inr (hd (findOverlapIndices level box)))
         else ([box, box'],
               if findOverlapIndices level box' \<noteq> [] then Inr (hd (findOverlapIndices level box'))
               else if ndebug then Inl OutOfBounds else Inl (Abort ''Failed assertion'')))
   \<and> (\<not> ndebug \<and> k < length X_arr div NDIM
        \<and> X_idx = getCellIndex (take NDIM (drop (NDIM * k) X_arr))
        \<and> findOverlapIndices level \<lparr>lower = X_idx, upper = X_idx\<rparr> = []
        \<and> findOverlapIndices level
            \<lparr>lower = map (\<lambda>x. x - 1) X_idx, upper = map (\<lambda>x. x + 1) X_idx\<rparr> = []
      \<longrightarrow> (\<exists>e. constructPatchLevelSCInterpOp ndebug NDIM mpi_rank getCellIndex interp_fcn
                  interp_stencil X_arr X_lower num_dofs_per_proc level = Inl e))"
proof (intro conjI impI)
  show "find_patch ndebug (findOverlapIndices level) X_idx =
     (let box = \<lparr>lower = X_idx, upper = X_idx\<rparr>;
          box' = \<lparr>lower = map (\<lambda>x. x - 1) X_idx, upper = map (\<lambda>x. x + 1) X_idx\<rparr>
      in if findOverlapIndices level box \<noteq> [] then ([box], Inr (hd (findOverlapIndices level box)))
         else ([box, box'],
               if findOverlapIndices level box' \<noteq> [] then Inr (hd (findOverlapIndices level box'))
               else if ndebug then Inl OutOfBounds else Inl (Abort ''Failed assertion'')))"
    by (rule find_patch_char)
next
  assume a: "\<not> ndebug \<and> k < length X_arr div NDIM
        \<and> X_idx = getCellIndex (take NDIM (drop (NDIM * k) X_arr))
        \<and> findOverlapIndices level \<lparr>lower = X_idx, upper = X_idx\<rparr> = []
        \<and> findOverlapIndices level
            \<lparr>lower = map (\<lambda>x. x - 1) X_idx, upper = map (\<lambda>x. x + 1) X_idx\<rparr> = []"
  then have nd: "\<not> ndebug" and kk: "k < length X_arr div NDIM"
    and X: "getCellIndex (take NDIM (drop (NDIM * k) X_arr)) = X_idx"
    and f1: "findOverlapIndices level \<lparr>lower = X_idx, upper = X_idx\<rparr> = []"
    and f2: "findOverlapIndices level
            \<lparr>lower = map (\<lambda>x. x - 1) X_idx, upper = map (\<lambda>x. x + 1) X_idx\<rparr> = []"
    by blast+
  have "snd (find_patch ndebug (findOverlapIndices level) X_idx) = Inl (Abort ''Failed assertion'')"
    unfolding find_patch_char Let_def using nd f1 f2 by simp
  then have point: "\<And>s R dx dl. interp_count_point ndebug NDIM getCellIndex s R level dx dl X_arr k
      = Inl (Abort ''Failed assertion'')"
    unfolding interp_count_point_def Let_def X by (simp add: bind_def)
  have k: "k \<in> set [0..<length X_arr div NDIM]" using kk by simp
  have pts: "mapM (interp_count_point ndebug NDIM getCellIndex s R level dx dl X_arr)
      [0..<length X_arr div NDIM] \<noteq> Inr ys" for s R dx dl ys
    using mapM_fails [where f = "interp_count_point ndebug NDIM getCellIndex s R level dx dl X_arr",
        OF k point] by auto
  show "\<exists>e. constructPatchLevelSCInterpOp ndebug NDIM mpi_rank getCellIndex interp_fcn
                  interp_stencil X_arr X_lower num_dofs_per_proc level = Inl e"
    by (auto simp: constructPatchLevelSCInterpOp_def Let_def bind_def pts split: sum.splits)
qed

theorem interp_point_search_witness:
  "fst (find_patch False (findOverlapIndices ex_level) [9, 3])
     = [\<lparr>lower = [9, 3], upper = [9, 3]\<rparr>, \<lparr>lower = [8, 2], upper = [10, 4]\<rparr>]
   \<and> snd (find_patch False (findOverlapIndices ex_level) [9, 3]) = Inl (Abort ''Failed assertion'')
   \<and> (\<exists>e. constructPatchLevelSCInterpOp False 2 0 ex_getCellIndex ex_interp_fcn 4
              [19 / 2, 7 / 2] 0 [200] ex_level = Inl e)"
proof -
  have X: "ex_getCellIndex (take 2 (drop (2 * 0) [19 / 2, 7 / 2])) = [9, 3]"
    by code_simp
  have f1: "findOverlapIndices ex_level \<lparr>lower = [9, 3], upper = [9, 3]\<rparr> = []"
    by (simp add: ex_level_def)
  have f2: "findOverlapIndices ex_level
      \<lparr>lower = map (\<lambda>x. x - 1) [9, 3], upper = map (\<lambda>x. x + 1) [9, 3]\<rparr> = []"
    by (simp add: ex_level_def)
  show ?thesis
    using X f1 f2
      interp_point_search [where ndebug = False and level = ex_level and X_idx = "[9, 3]"
        and k = 0 and X_arr = "[19 / 2, 7 / 2]" and NDIM = 2 and getCellIndex = ex_getCellIndex
        and mpi_rank = 0 and interp_fcn = ex_interp_fcn and interp_stencil = 4 and X_lower = 0
        and num_dofs_per_proc = "[200]"]
    by (simp add: Let_def)
qed

text \<open>
  The claim of C9 fails when \<open>NDEBUG\<close> is defined: for a point in cell (9,3), two cells
  away from the only patch, both searches are empty, no assertion is compiled in and the
  call does not abort with an error: it reads element 0 of the empty result array.
\<close>

theorem interp_point_not_found_ndebug:
  "constructPatchLevelSCInterpOp True 2 0 ex_getCellIndex ex_interp_fcn 4 [19 / 2, 7 / 2] 0 [200]
     ex_level = Inl OutOfBounds"
  by code_simp


section \<open>Rows of the interpolation matrix\<close>

text \<open>
  The value phase of a successful call hands one row per axis and local point to
  \<open>MatSetValues\<close>.  The lemmas of this section show that this row is \<open>interp_row\<close>: its
  columns are the DOF indices on the stencil box the specification describes, and its
  coefficients are the tensor product of the kernel weights.
\<close>

lemma foldM_tensor:
  "foldM (\<lambda>v d. bind (read_at (w ! d) (g d)) (\<lambda>wd. Inr (v * wd))) a ds = Inr v
   \<Longrightarrow> v = a * prod_list (map (\<lambda>d. w ! d ! g d) ds)" for a :: rat
proof (induction ds arbitrary: a)
  case Nil
  then show ?case by simp
next
  case (Cons d ds)
  from Cons.prems obtain wd where rd: "read_at (w ! d) (g d) = Inr wd"
    and rest: "foldM (\<lambda>v d. bind (read_at (w ! d) (g d)) (\<lambda>wd. Inr (v * wd))) (a * wd) ds = Inr v"
    by (auto simp: bind_Inr_iff)
  from rd have "wd = w ! d ! g d"
    by (simp add: read_at_def split: if_splits)
  with Cons.IH [OF rest] show ?case by simp
qed

lemma tensor_weight_Inr:
  "tensor_weight NDIM w lo i = Inr v
   \<Longrightarrow> v = prod_list (map (\<lambda>d. w ! d ! nat (i ! d - lo ! d)) [0..<NDIM])"
  unfolding tensor_weight_def by (drule foldM_tensor) simp

lemma mapM_Inr_map:
  assumes "mapM f xs = Inr ys" "\<And>x y. x \<in> set xs \<Longrightarrow> f x = Inr y \<Longrightarrow> h y = g x"
  shows "map h ys = map g xs"
  using assms
proof (induction xs arbitrary: ys)
  case Nil
  then show ?case by simp
next
  case (Cons x xs)
  then show ?case by (auto simp: bind_Inr_iff)
qed

lemma mapM_Inr_eq:
  assumes "mapM f xs = Inr ys" "\<And>x y. x \<in> set xs \<Longrightarrow> f x = Inr y \<Longrightarrow> y = g x"
  shows "ys = map g xs"
  using mapM_Inr_map [where h = "\<lambda>y. y", OF assms] by simp

lemma read_at_Inr: "read_at xs n = Inr x \<Longrightarrow> x = xs ! n"
  by (simp add: read_at_def split: if_splits)

lemma side_read_Inr: "side_read data axis i d = Inr v \<Longrightarrow> v = array data axis i d"
  by (simp add: side_read_def split: if_splits)

lemma interp_values_axis_eq:
  assumes "interp_values_axis NDIM interp_fcn level dx dl X_lower data X k sb axis = Inr r"
  shows "r = (X_lower + int (NDIM * k + axis),
              map (\<lambda>i. array data axis i 0) (box_iterator sb),
              kernel_row NDIM (interp_weights NDIM interp_fcn level dx dl X (lower sb) axis) sb)"
proof -
  let ?w = "interp_weights NDIM interp_fcn level dx dl X (lower sb) axis"
  from assms obtain entries where
    m: "mapM (\<lambda>i. bind (tensor_weight NDIM ?w (lower sb) i) (\<lambda>v.
                 bind (side_read data axis i 0) (\<lambda>col. Inr (col, v)))) (box_iterator sb)
          = Inr entries"
    and r: "r = (X_lower + int (NDIM * k + axis), map fst entries, map snd entries)"
    by (auto simp: interp_values_axis_def Let_def bind_Inr_iff)
  have "map snd entries
      = map (\<lambda>i. prod_list (map (\<lambda>d. ?w ! d ! nat (i ! d - lower sb ! d)) [0..<NDIM]))
          (box_iterator sb)"
    by (rule mapM_Inr_map [OF m]) (auto simp: bind_Inr_iff dest: tensor_weight_Inr)
  moreover have "map fst entries = map (\<lambda>i. array data axis i 0) (box_iterator sb)"
    by (rule mapM_Inr_map [OF m]) (auto simp: bind_Inr_iff dest: side_read_Inr)
  ultimately show ?thesis using r by (simp add: kernel_row_def)
qed

lemma even_sdiv2:
  fixes s :: int
  assumes "s smod 2 = 0"
  shows "s sdiv 2 = s div 2" "2 * (s div 2) = s"
proof -
  have "s sdiv 2 * 2 + s smod 2 = s" by (rule sdiv_mult_smod_eq)
  then have "2 * (s sdiv 2) = s" using assms by simp
  then show "s sdiv 2 = s div 2" "2 * (s div 2) = s" by presburger+
qed

lemma grid_spacing_nth: "d < NDIM \<Longrightarrow> grid_spacing NDIM level ! d = stencil_spacing level d"
  by (simp add: grid_spacing_def stencil_spacing_def)

lemma cell_centre_nth:
  assumes "d < NDIM" "d \<noteq> axis"
  shows "cell_centre NDIM level (grid_spacing NDIM level) (lower (physical_domain level ! 0)) c ! d
         = stencil_line level axis d (c ! d)"
  using assms by (simp add: cell_centre_def stencil_line_def grid_spacing_nth)

lemma stencil_box_axis_centred:
  assumes "s smod 2 = 0"
  shows "stencil_box_axis NDIM s c X
           (cell_centre NDIM level (grid_spacing NDIM level) (lower (physical_domain level ! 0)) c)
           axis
         = centred_stencil_box NDIM level s c X axis"
proof -
  note e = even_sdiv2 [OF assms]
  have lo: "(if d = axis then c ! d - s sdiv 2 + 1
         else if X ! d \<le> cell_centre NDIM level (grid_spacing NDIM level)
                            (lower (physical_domain level ! 0)) c ! d
              then c ! d - s sdiv 2 else c ! d - s sdiv 2 + 1)
        = lowest_stencil_line level s c X axis d" if "d < NDIM" for d
    using that by (simp add: lowest_stencil_line_def Let_def e(1) cell_centre_nth)
  have up: "(if d = axis then c ! d + s sdiv 2
         else if X ! d \<le> cell_centre NDIM level (grid_spacing NDIM level)
                            (lower (physical_domain level ! 0)) c ! d
              then c ! d + s sdiv 2 - 1 else c ! d + s sdiv 2)
        = lowest_stencil_line level s c X axis d + s - 1" if "d < NDIM" for d
    using that e(2) by (simp add: lowest_stencil_line_def Let_def e(1) cell_centre_nth)
  show ?thesis
    unfolding stencil_box_axis_def centred_stencil_box_def
    by (simp add: lo up cong: map_cong)
qed

lemma interp_weights_kernel:
  "interp_weights NDIM interp_fcn level (grid_spacing NDIM level)
     (lower (physical_domain level ! 0)) X (lower (centred_stencil_box NDIM level s c X axis)) axis
   = kernel_weights NDIM interp_fcn level s c X axis"
  unfolding interp_weights_def kernel_weights_def Let_def
  by (rule map_cong [OF refl])
    (simp add: centred_stencil_box_def stencil_line_def grid_spacing_nth algebra_simps)

lemma sum_list_concat_map: "sum_list (concat xss) = sum_list (map sum_list xss)"
  for xss :: "rat list list"
  by (induction xss) simp_all

lemma sum_list_box_indices:
  fixes G :: "nat \<Rightarrow> int \<Rightarrow> rat"
  assumes "length lo = length up"
  shows "sum_list (map (\<lambda>i. prod_list (map (\<lambda>d. G d (i ! d)) [0..<length lo])) (box_indices lo up))
       = prod_list (map (\<lambda>d. sum_list (map (G d) [lo ! d..up ! d])) [0..<length lo])"
  using assms
proof (induction lo up arbitrary: G rule: box_indices.induct)
  case 1
  then show ?case by simp
next
  case (2 l ls u us)
  let ?P = "\<lambda>rest. prod_list (map (\<lambda>d. G (Suc d) (rest ! d)) [0..<length ls])"
  have ih: "sum_list (map ?P (box_indices ls us))
      = prod_list (map (\<lambda>d. sum_list (map (G (Suc d)) [ls ! d..us ! d])) [0..<length ls])"
    using "2.IH" [of "\<lambda>d. G (Suc d)"] "2.prems" by simp
  have "sum_list (map (\<lambda>i. prod_list (map (\<lambda>d. G d (i ! d)) [0..<length (l # ls)]))
          (box_indices (l # ls) (u # us)))
      = sum_list (map (\<lambda>rest. sum_list (map (\<lambda>x. G 0 x * ?P rest) [l..u])) (box_indices ls us))"
    by (simp add: sum_list_concat_map map_concat comp_def map_upt_Suc del: upt_Suc)
  also have "\<dots> = sum_list (map (\<lambda>rest. sum_list (map (G 0) [l..u]) * ?P rest) (box_indices ls us))"
    by (simp add: sum_list_mult_const)
  also have "\<dots> = sum_list (map (G 0) [l..u]) * sum_list (map ?P (box_indices ls us))"
    by (simp add: sum_list_const_mult)
  finally show ?case
    by (simp add: ih map_upt_Suc del: upt_Suc)
qed simp_all

lemma sum_list_window:
  "sum_list (map (\<lambda>x. ws ! nat (x - l)) [l..l + int (length ws) - 1]) = sum_list ws"
  for ws :: "rat list"
proof -
  have "map (\<lambda>x. ws ! nat (x - l)) [l..l + int (length ws) - 1] = ws"
    by (rule nth_equalityI) simp_all
  then show ?thesis by simp
qed

lemma kernel_row_sum:
  assumes box: "box_width NDIM s sb"
    and w: "\<forall>d < NDIM. length (w ! d) = nat s \<and> sum_list (w ! d) = 1"
  shows "sum_list (kernel_row NDIM w sb) = 1"
proof -
  have len: "length (lower sb) = NDIM" "length (lower sb) = length (upper sb)"
    using box by (simp_all add: box_width_def)
  have factor: "sum_list (map (\<lambda>x. w ! d ! nat (x - lower sb ! d)) [lower sb ! d..upper sb ! d]) = 1"
    if "d < NDIM" for d
  proof -
    have "sum_list (w ! d) = 1" "length (w ! d) = nat s" using w that by simp_all
    then have "w ! d \<noteq> []" by auto
    then have "0 < length (w ! d)" by simp
    then have "int (length (w ! d)) = s" using \<open>length (w ! d) = nat s\<close> by linarith
    then have "upper sb ! d = lower sb ! d + int (length (w ! d)) - 1"
      using box that by (simp add: box_width_def)
    then show ?thesis
      using sum_list_window [of "w ! d" "lower sb ! d"] \<open>sum_list (w ! d) = 1\<close> by simp
  qed
  have "sum_list (kernel_row NDIM w sb)
      = prod_list (map (\<lambda>d. sum_list (map (\<lambda>x. w ! d ! nat (x - lower sb ! d))
                                  [lower sb ! d..upper sb ! d])) [0..<NDIM])"
    unfolding kernel_row_def box_iterator_def
    using sum_list_box_indices [OF len(2), of "\<lambda>d x. w ! d ! nat (x - lower sb ! d)"] len(1)
    by simp
  also have "\<dots> = prod_list (map (\<lambda>d. 1) [0..<NDIM])"
    by (rule arg_cong [where f = prod_list]) (simp add: factor)
  also have "\<dots> = 1" by (induction NDIM) simp_all
  finally show ?thesis .
qed

lemma centred_stencil_box_width: "box_width NDIM s (centred_stencil_box NDIM level s c X axis)"
  by (simp add: box_width_def centred_stencil_box_def)

lemma tensor_product_row_sum:
  assumes "\<forall>r. length (interp_fcn r) = nat s \<and> sum_list (interp_fcn r) = 1"
  shows "sum_list (tensor_product_row NDIM getCellIndex interp_fcn s X_arr level k axis) = 1"
  unfolding tensor_product_row_def Let_def
  by (rule kernel_row_sum [OF centred_stencil_box_width])
    (simp add: kernel_weights_def assms)

lemma interp_count_axis_Inr:
  "interp_count_axis ndebug NDIM s R data X_idx X X_cell axis = Inr a
   \<Longrightarrow> s smod 2 = 0 \<and> fst a = stencil_box_axis NDIM s X_idx X X_cell axis"
  by (auto simp: interp_count_axis_def Let_def bind_Inr_iff split: if_splits)

lemma find_patch_Inr:
  assumes "snd (find_patch ndebug (findOverlapIndices level) c) = Inr pn"
  shows "pn = found_patch level c"
  using assms unfolding find_patch_char Let_def found_patch_def
  by (auto split: if_splits)

lemma interp_count_point_Inr:
  assumes "interp_count_point ndebug NDIM getCellIndex s R level dx dl X_arr k = Inr (pn, axes)"
  shows "length axes = NDIM"
    and "pn = found_patch level (getCellIndex (take NDIM (drop (NDIM * k) X_arr)))"
    and "\<And>axis. axis < NDIM \<Longrightarrow> s smod 2 = 0
            \<and> fst (axes ! axis) = stencil_box_axis NDIM s
                (getCellIndex (take NDIM (drop (NDIM * k) X_arr)))
                (take NDIM (drop (NDIM * k) X_arr))
                (cell_centre NDIM level dx dl (getCellIndex (take NDIM (drop (NDIM * k) X_arr))))
                axis"
proof -
  let ?X = "take NDIM (drop (NDIM * k) X_arr)"
  let ?X_cell = "cell_centre NDIM level dx dl (getCellIndex ?X)"
  from assms obtain data where
    fp: "snd (find_patch ndebug (findOverlapIndices level) (getCellIndex ?X)) = Inr pn"
    and m: "mapM (interp_count_axis ndebug NDIM s R data (getCellIndex ?X) ?X ?X_cell) [0..<NDIM]
       = Inr axes"
    by (auto simp: interp_count_point_def Let_def bind_Inr_iff)
  from fp show "pn = found_patch level (getCellIndex ?X)" by (rule find_patch_Inr)
  from m have l2: "list_all2 (\<lambda>axis a.
      interp_count_axis ndebug NDIM s R data (getCellIndex ?X) ?X ?X_cell axis = Inr a)
      [0..<NDIM] axes"
    by (simp add: mapM_Inr)
  then show len: "length axes = NDIM" by (auto dest: list_all2_lengthD)
  fix axis assume "axis < NDIM"
  then have "interp_count_axis ndebug NDIM s R data (getCellIndex ?X) ?X ?X_cell axis
      = Inr (axes ! axis)"
    using list_all2_nthD [OF l2, of axis] by simp
  then show "s smod 2 = 0 \<and> fst (axes ! axis)
      = stencil_box_axis NDIM s (getCellIndex ?X) ?X ?X_cell axis"
    by (rule interp_count_axis_Inr)
qed

lemma interp_rows:
  assumes ok: "constructPatchLevelSCInterpOp ndebug NDIM mpi_rank getCellIndex interp_fcn
                 interp_stencil X_arr X_lower num_dofs_per_proc level = Inr A"
  shows "mat_rows A
       = concat (map (\<lambda>k. map (interp_row NDIM getCellIndex interp_fcn
                                   (round_interp_stencil interp_stencil) X_arr X_lower level k)
                              [0..<NDIM])
                     [0..<length X_arr div NDIM])"
proof -
  let ?s = "round_interp_stencil interp_stencil"
  let ?dx = "grid_spacing NDIM level"
  let ?n = "length X_arr div NDIM"
  let ?row = "interp_row NDIM getCellIndex interp_fcn ?s X_arr X_lower level"
  from ok obtain domain_box R points rows where
    db: "read_at (physical_domain level) 0 = Inr domain_box"
    and p: "mapM (interp_count_point ndebug NDIM getCellIndex ?s R level ?dx (lower domain_box)
               X_arr) [0..<?n] = Inr points"
    and v: "mapM (interp_values_point ndebug NDIM interp_fcn ?s level ?dx (lower domain_box)
               X_lower X_arr) (zip [0..<?n] points) = Inr rows"
    and A: "mat_rows A = concat rows"
    by (auto simp: constructPatchLevelSCInterpOp_def Let_def bind_Inr_iff)
  let ?dl = "lower (physical_domain level ! 0)"
  have dl: "domain_box = physical_domain level ! 0"
    using db by (rule read_at_Inr)
  have p2: "list_all2 (\<lambda>k pt. interp_count_point ndebug NDIM getCellIndex ?s R level ?dx ?dl
               X_arr k = Inr pt) [0..<?n] points"
    using p by (simp add: mapM_Inr dl)
  then have lp: "length points = ?n" by (auto dest: list_all2_lengthD)
  have "rows = map (\<lambda>kp. map (?row (fst kp)) [0..<NDIM]) (zip [0..<?n] points)"
    using v
  proof (rule mapM_Inr_eq)
    fix kp y
    assume mem: "kp \<in> set (zip [0..<?n] points)"
      and y: "interp_values_point ndebug NDIM interp_fcn ?s level ?dx (lower domain_box)
               X_lower X_arr kp = Inr y"
    obtain k pn axes where kp: "kp = (k, pn, axes)" by (cases kp) auto
    from mem kp have k: "k < ?n" and pt: "points ! k = (pn, axes)"
      by (auto simp: in_set_zip)
    let ?X = "take NDIM (drop (NDIM * k) X_arr)"
    let ?c = "getCellIndex ?X"
    have cnt: "interp_count_point ndebug NDIM getCellIndex ?s R level ?dx ?dl X_arr k
        = Inr (pn, axes)"
      using list_all2_nthD [OF p2, of k] k pt by simp
    note c = interp_count_point_Inr [OF cnt]
    from y kp obtain data where
      data: "data = patch_dof_index_data level ! pn"
      and m: "mapM (\<lambda>axis. bind (read_at axes axis) (\<lambda>a.
          interp_values_axis NDIM interp_fcn level ?dx ?dl X_lower data ?X k (fst a) axis))
         [0..<NDIM] = Inr y"
      by (auto simp: interp_values_point_def Let_def bind_Inr_iff dl dest: read_at_Inr)
    have "y = map (?row k) [0..<NDIM]"
      using m
    proof (rule mapM_Inr_eq)
      fix axis r
      assume "axis \<in> set [0..<NDIM]"
        and r: "bind (read_at axes axis) (\<lambda>a.
          interp_values_axis NDIM interp_fcn level ?dx ?dl X_lower data ?X k (fst a) axis) = Inr r"
      then have axis: "axis < NDIM" by simp
      from c(3) [OF axis] have sb: "fst (axes ! axis) = centred_stencil_box NDIM level ?s ?c ?X axis"
        by (simp add: stencil_box_axis_centred)
      from r obtain a where a: "read_at axes axis = Inr a"
        and ra: "interp_values_axis NDIM interp_fcn level ?dx ?dl X_lower data ?X k
          (fst a) axis = Inr r"
        by (auto simp: bind_Inr_iff)
      have "a = axes ! axis" using a by (rule read_at_Inr)
      with ra have "interp_values_axis NDIM interp_fcn level ?dx ?dl X_lower data ?X k
          (fst (axes ! axis)) axis = Inr r"
        by simp
      from interp_values_axis_eq [OF this]
      show "r = ?row k axis"
        unfolding sb interp_weights_kernel
        by (simp add: interp_row_def stencil_columns_def tensor_product_row_def Let_def
            data c(2))
    qed
    then show "y = map (?row (fst kp)) [0..<NDIM]" by (simp add: kp)
  qed
  also have "\<dots> = map (\<lambda>k. map (?row k) [0..<NDIM]) (map fst (zip [0..<?n] points))"
    by (simp add: comp_def)
  also have "map fst (zip [0..<?n] points) = [0..<?n]"
    using lp by simp
  finally show ?thesis using A by simp
qed

lemma concat_rows_upt:
  "concat (map (\<lambda>k. map (\<lambda>axis. f (NDIM * k + axis)) [0..<NDIM]) [0..<n]) = map f [0..<NDIM * n]"
proof (induction n)
  case 0
  then show ?case by simp
next
  case (Suc n)
  have "map (\<lambda>axis. f (NDIM * n + axis)) [0..<NDIM]
      = map f (map (\<lambda>i. i + NDIM * n) [0..<NDIM])"
    by (simp add: comp_def add.commute)
  also have "\<dots> = map f [NDIM * n..<NDIM * n + NDIM]"
    by (simp only: map_add_upt add.commute)
  finally have "map (\<lambda>axis. f (NDIM * n + axis)) [0..<NDIM] = map f [NDIM * n..<NDIM * n + NDIM]" .
  moreover have "[0..<NDIM * Suc n] = [0..<NDIM * n] @ [NDIM * n..<NDIM * n + NDIM]"
    using upt_add_eq_append [of 0 "NDIM * n" NDIM] by (simp add: add.commute)
  ultimately show ?case using Suc by simp
qed

lemma filter_distinct_map:
  "distinct (map f xs) \<Longrightarrow> x \<in> set xs \<Longrightarrow> filter (\<lambda>y. f y = f x) xs = [x]"
proof (induction xs)
  case Nil
  then show ?case by simp
next
  case (Cons a xs)
  show ?case
  proof (cases "x = a")
    case True
    have "filter (\<lambda>y. f y = f a) xs = []"
      using Cons.prems(1) by (auto simp: filter_empty_conv image_iff)
    then show ?thesis using True by simp
  next
    case False
    then have "x \<in> set xs" using Cons.prems(2) by simp
    then have "f a \<noteq> f x" using Cons.prems(1) by auto
    then show ?thesis using Cons \<open>x \<in> set xs\<close> by simp
  qed
qed

lemma interp_rows_distinct:
  assumes "mat_rows A
       = concat (map (\<lambda>k. map (interp_row NDIM getCellIndex interp_fcn s X_arr X_lower level k)
                              [0..<NDIM]) [0..<n])"
  shows "distinct (map fst (mat_rows A))"
proof -
  have "map fst (mat_rows A)
      = concat (map (\<lambda>k. map (\<lambda>axis. X_lower + int (NDIM * k + axis)) [0..<NDIM]) [0..<n])"
    unfolding assms by (simp add: map_concat comp_def interp_row_def)
  also have "\<dots> = map (\<lambda>j. X_lower + int j) [0..<NDIM * n]"
    by (rule concat_rows_upt)
  finally show ?thesis
    by (simp add: distinct_map inj_on_def)
qed

lemma insert_value_fresh: "c \<notin> fst ` set es \<Longrightarrow> insert_value c v es = es @ [(c, v)]"
  by (induction es) auto

lemma MatSetValues_fresh:
  assumes "distinct (map fst (filter (\<lambda>cv. 0 \<le> fst cv) cvs))"
    and "fst ` set (filter (\<lambda>cv. 0 \<le> fst cv) cvs) \<inter> fst ` set es = {}"
  shows "foldl (\<lambda>es cv. if fst cv < 0 then es else insert_value (fst cv) (snd cv) es) es cvs
         = es @ filter (\<lambda>cv. 0 \<le> fst cv) cvs"
  using assms
proof (induction cvs arbitrary: es)
  case Nil
  then show ?case by simp
next
  case (Cons cv cvs)
  show ?case
  proof (cases "fst cv < 0")
    case True
    then show ?thesis using Cons by simp
  next
    case False
    then have fresh: "fst cv \<notin> fst ` set es" using Cons.prems(2) by auto
    have "fst ` set (filter (\<lambda>cv. 0 \<le> fst cv) cvs) \<inter> fst ` set (es @ [cv]) = {}"
      using Cons.prems False by auto
    moreover have "distinct (map fst (filter (\<lambda>cv. 0 \<le> fst cv) cvs))"
      using Cons.prems(1) False by simp
    ultimately have "foldl (\<lambda>es cv. if fst cv < 0 then es else insert_value (fst cv) (snd cv) es)
        (es @ [cv]) cvs = (es @ [cv]) @ filter (\<lambda>cv. 0 \<le> fst cv) cvs"
      by (intro Cons.IH)
    then show ?thesis
      using False by (simp add: insert_value_fresh [OF fresh])
  qed
qed

lemma map_fst_filter_zip:
  "length cols = length vals
   \<Longrightarrow> map fst (filter (\<lambda>cv. P (fst cv)) (zip cols vals)) = filter P cols"
  by (induction cols vals rule: list_induct2) simp_all

lemma filter_zip_all:
  "\<forall>c \<in> set cols. P c \<Longrightarrow> filter (\<lambda>cv. P (fst cv)) (zip cols vals) = zip cols vals"
  by (auto simp: filter_id_conv dest: set_zip_leftD)

lemma assembled_row_single:
  assumes "filter (\<lambda>e. fst e = row) rows = [(row, cols, vals)]" "0 \<le> row"
    and "distinct (filter (\<lambda>c. 0 \<le> c) cols)" "length cols = length vals"
  shows "assembled_row rows row = filter (\<lambda>cv. 0 \<le> fst cv) (zip cols vals)"
proof -
  have "distinct (map fst (filter (\<lambda>cv. 0 \<le> fst cv) (zip cols vals)))"
    using assms(3,4) by (simp add: map_fst_filter_zip)
  then have "MatSetValues [] cols vals = [] @ filter (\<lambda>cv. 0 \<le> fst cv) (zip cols vals)"
    unfolding MatSetValues_def by (intro MatSetValues_fresh) simp_all
  then show ?thesis
    using assms(1,2) by (simp add: assembled_row_def)
qed

lemma foldl_rounded_error:
  assumes re: "relative_error u fmul" and u: "0 \<le> u"
  shows "\<bar>a' - a\<bar> \<le> ((1 + u) ^ n - 1) * \<bar>a\<bar>
     \<Longrightarrow> \<bar>foldl (\<lambda>v d. fmul v (g d)) a' ds - a * prod_list (map g ds)\<bar>
         \<le> ((1 + u) ^ (n + length ds) - 1) * \<bar>a * prod_list (map g ds)\<bar>"
proof (induction ds arbitrary: a' a n)
  case Nil
  then show ?case by simp
next
  case (Cons d ds)
  let ?p = "(1 + u) ^ n"
  have p1: "1 \<le> ?p" using u by (simp add: one_le_power)
  have a'le: "\<bar>a'\<bar> \<le> ?p * \<bar>a\<bar>"
  proof -
    have "\<bar>a'\<bar> \<le> \<bar>a\<bar> + \<bar>a' - a\<bar>" by simp
    also have "\<dots> \<le> \<bar>a\<bar> + (?p - 1) * \<bar>a\<bar>" using Cons.prems by simp
    also have "\<dots> = ?p * \<bar>a\<bar>" by (simp add: algebra_simps)
    finally show ?thesis .
  qed
  have "\<bar>fmul a' (g d) - a * g d\<bar> \<le> \<bar>fmul a' (g d) - a' * g d\<bar> + \<bar>a' * g d - a * g d\<bar>"
    by simp
  also have "\<bar>fmul a' (g d) - a' * g d\<bar> \<le> u * \<bar>a' * g d\<bar>"
    using re by (simp add: relative_error_def)
  also have "u * \<bar>a' * g d\<bar> \<le> u * (?p * \<bar>a\<bar> * \<bar>g d\<bar>)"
    using a'le u by (simp add: abs_mult mult_left_mono mult_right_mono)
  also have "\<bar>a' * g d - a * g d\<bar> = \<bar>a' - a\<bar> * \<bar>g d\<bar>"
    by (simp add: abs_mult [symmetric] algebra_simps)
  also have "\<bar>a' - a\<bar> * \<bar>g d\<bar> \<le> (?p - 1) * \<bar>a\<bar> * \<bar>g d\<bar>"
    using Cons.prems by (simp add: mult_right_mono)
  finally have "\<bar>fmul a' (g d) - a * g d\<bar>
      \<le> u * (?p * \<bar>a\<bar> * \<bar>g d\<bar>) + (?p - 1) * \<bar>a\<bar> * \<bar>g d\<bar>"
    by simp
  also have "\<dots> = ((1 + u) ^ Suc n - 1) * \<bar>a * g d\<bar>"
    by (simp add: abs_mult algebra_simps)
  finally have step: "\<bar>fmul a' (g d) - a * g d\<bar> \<le> ((1 + u) ^ Suc n - 1) * \<bar>a * g d\<bar>" .
  from Cons.IH [OF step] show ?case
    by (simp add: mult.assoc)
qed

lemma tensor_weight_rounded_error:
  assumes "relative_error u fmul" "0 \<le> u"
  shows "\<bar>tensor_weight_rounded fmul NDIM w lo i
          - prod_list (map (\<lambda>d. w ! d ! nat (i ! d - lo ! d)) [0..<NDIM])\<bar>
         \<le> ((1 + u) ^ NDIM - 1)
            * \<bar>prod_list (map (\<lambda>d. w ! d ! nat (i ! d - lo ! d)) [0..<NDIM])\<bar>"
  unfolding tensor_weight_rounded_def
  using foldl_rounded_error [OF assms, of 1 1 0 "\<lambda>d. w ! d ! nat (i ! d - lo ! d)" "[0..<NDIM]"]
  by simp

lemma tensor_weight_rounded_exact:
  "tensor_weight_rounded (*) NDIM w lo i
     = prod_list (map (\<lambda>d. w ! d ! nat (i ! d - lo ! d)) [0..<NDIM])"
proof -
  have "foldl (\<lambda>v d. v * g d) a ds = a * prod_list (map g ds)" for a :: rat and g and ds :: "nat list"
    by (induction ds arbitrary: a) (simp_all add: mult.assoc)
  then show ?thesis by (simp add: tensor_weight_rounded_def)
qed

lemma rounded_row_exact: "rounded_row (*) NDIM w sb = kernel_row NDIM w sb"
  by (simp add: rounded_row_def kernel_row_def tensor_weight_rounded_exact)

lemma sum_list_abs_diff:
  "\<bar>sum_list (map f xs) - sum_list (map g xs)\<bar> \<le> sum_list (map (\<lambda>x. \<bar>f x - g x\<bar>) xs)"
  for f g :: "'a \<Rightarrow> rat"
proof (induction xs)
  case Nil
  then show ?case by simp
next
  case (Cons x xs)
  have "\<bar>sum_list (map f (x # xs)) - sum_list (map g (x # xs))\<bar>
      = \<bar>(f x - g x) + (sum_list (map f xs) - sum_list (map g xs))\<bar>"
    by (simp add: algebra_simps)
  also have "\<dots> \<le> \<bar>f x - g x\<bar> + \<bar>sum_list (map f xs) - sum_list (map g xs)\<bar>"
    by (rule abs_triangle_ineq)
  finally show ?case using Cons by simp
qed

lemma abs_prod_list_map: "\<bar>prod_list (map g ds)\<bar> = prod_list (map (\<lambda>d. \<bar>g d\<bar>) ds)"
  for g :: "'a \<Rightarrow> rat"
  by (induction ds) (simp_all add: abs_mult)

lemma sum_list_window_abs:
  "sum_list (map (\<lambda>x. \<bar>ws ! nat (x - l)\<bar>) [l..l + int (length ws) - 1]) = sum_list (map abs ws)"
  for ws :: "rat list"
proof -
  have "map (\<lambda>x. \<bar>ws ! nat (x - l)\<bar>) [l..l + int (length ws) - 1] = map abs ws"
    by (rule nth_equalityI) simp_all
  then show ?thesis by simp
qed

lemma rounded_row_sum:
  assumes re: "relative_error u fmul" and u: "0 \<le> u"
    and box: "box_width NDIM s sb"
    and w: "\<forall>d < NDIM. length (w ! d) = nat s \<and> sum_list (w ! d) = 1 \<and> (\<forall>x \<in> set (w ! d). 0 \<le> x)"
  shows "\<bar>sum_list (rounded_row fmul NDIM w sb) - 1\<bar> \<le> (1 + u) ^ NDIM - 1"
proof -
  let ?c = "\<lambda>i. prod_list (map (\<lambda>d. w ! d ! nat (i ! d - lower sb ! d)) [0..<NDIM])"
  let ?r = "tensor_weight_rounded fmul NDIM w (lower sb)"
  let ?e = "(1 + u) ^ NDIM - 1"
  have e: "0 \<le> ?e" using u by (simp add: one_le_power)
  have len: "length (lower sb) = NDIM" "length (lower sb) = length (upper sb)"
    using box by (simp_all add: box_width_def)
  have exact: "sum_list (map ?c (box_iterator sb)) = 1"
    using kernel_row_sum [OF box, of w] w by (simp add: kernel_row_def)
  have factor: "sum_list (map (\<lambda>x. \<bar>w ! d ! nat (x - lower sb ! d)\<bar>) [lower sb ! d..upper sb ! d]) = 1"
    if "d < NDIM" for d
  proof -
    have s1: "sum_list (w ! d) = 1" and l: "length (w ! d) = nat s"
      and nn: "\<forall>x \<in> set (w ! d). 0 \<le> x"
      using w that by simp_all
    then have "w ! d \<noteq> []" by auto
    then have "0 < length (w ! d)" by simp
    then have "int (length (w ! d)) = s" using l by linarith
    then have up: "upper sb ! d = lower sb ! d + int (length (w ! d)) - 1"
      using box that by (simp add: box_width_def)
    have "map abs (w ! d) = w ! d"
      using nn by (simp add: map_idI)
    then show ?thesis
      using sum_list_window_abs [of "w ! d" "lower sb ! d"] s1 up by simp
  qed
  have "sum_list (map (\<lambda>i. \<bar>?c i\<bar>) (box_iterator sb))
      = sum_list (map (\<lambda>i. prod_list (map (\<lambda>d. \<bar>w ! d ! nat (i ! d - lower sb ! d)\<bar>) [0..<NDIM]))
                      (box_iterator sb))"
    by (simp add: abs_prod_list_map)
  also have "\<dots> = prod_list (map (\<lambda>d. sum_list (map (\<lambda>x. \<bar>w ! d ! nat (x - lower sb ! d)\<bar>)
                                  [lower sb ! d..upper sb ! d])) [0..<NDIM])"
    unfolding box_iterator_def
    using sum_list_box_indices [OF len(2), of "\<lambda>d x. \<bar>w ! d ! nat (x - lower sb ! d)\<bar>"] len(1)
    by simp
  also have "\<dots> = prod_list (map (\<lambda>d. 1) [0..<NDIM])"
    by (rule arg_cong [where f = prod_list]) (simp add: factor)
  also have "\<dots> = 1" by (induction NDIM) simp_all
  finally have mass: "sum_list (map (\<lambda>i. \<bar>?c i\<bar>) (box_iterator sb)) = 1" .
  have "\<bar>sum_list (rounded_row fmul NDIM w sb) - 1\<bar>
      = \<bar>sum_list (map ?r (box_iterator sb)) - sum_list (map ?c (box_iterator sb))\<bar>"
    by (simp add: rounded_row_def exact)
  also have "\<dots> \<le> sum_list (map (\<lambda>i. \<bar>?r i - ?c i\<bar>) (box_iterator sb))"
    by (rule sum_list_abs_diff)
  also have "\<dots> \<le> sum_list (map (\<lambda>i. ?e * \<bar>?c i\<bar>) (box_iterator sb))"
    by (rule sum_list_mono) (rule tensor_weight_rounded_error [OF re u])
  also have "\<dots> = ?e * sum_list (map (\<lambda>i. \<bar>?c i\<bar>) (box_iterator sb))"
    by (simp add: sum_list_const_mult)
  finally show ?thesis by (simp add: mass)
qed

lemma double_products_bound: "NDIM \<le> 3 \<Longrightarrow> (1 + 1 / 2 ^ 53) ^ NDIM - 1 \<le> (1 / 10 ^ 12 :: rat)"
proof -
  assume "NDIM \<le> 3"
  then have "(1 + 1 / 2 ^ 53 :: rat) ^ NDIM \<le> (1 + 1 / 2 ^ 53) ^ 3"
    by (intro power_increasing) simp_all
  also have "\<dots> \<le> 1 + 1 / 10 ^ 12" by (simp add: power3_eq_cube)
  finally show ?thesis by simp
qed

lemma rounded_product_row_sum:
  assumes "relative_error (1 / 2 ^ 53) fmul" "NDIM \<le> 3"
    and "\<forall>r. length (interp_fcn r) = nat s \<and> sum_list (interp_fcn r) = 1"
    and "\<forall>r. \<forall>x \<in> set (interp_fcn r). 0 \<le> x"
  shows "\<bar>sum_list (rounded_product_row fmul NDIM getCellIndex interp_fcn s X_arr level k axis) - 1\<bar>
         \<le> 1 / 10 ^ 12"
proof -
  have "\<bar>sum_list (rounded_product_row fmul NDIM getCellIndex interp_fcn s X_arr level k axis) - 1\<bar>
      \<le> (1 + 1 / 2 ^ 53) ^ NDIM - 1"
    unfolding rounded_product_row_def Let_def
    by (rule rounded_row_sum [OF assms(1) _ centred_stencil_box_width])
      (simp_all add: kernel_weights_def assms(3,4))
  also have "\<dots> \<le> 1 / 10 ^ 12"
    using assms(2) by (rule double_products_bound)
  finally show ?thesis .
qed

lemma rounded_product_row_exact:
  "rounded_product_row (*) NDIM getCellIndex interp_fcn s X_arr level k axis
     = tensor_product_row NDIM getCellIndex interp_fcn s X_arr level k axis"
  by (simp add: rounded_product_row_def tensor_product_row_def rounded_row_exact)

lemma ex_interp_run_even:
  "constructPatchLevelSCInterpOp False 2 0 ex_getCellIndex ex_interp_fcn 4 [7 / 2, 7 / 2] 0 [200]
     ex_level
   = Inr ex_interp_op"
  unfolding ex_interp_op_def by code_simp

lemma ex_interp_run_bdry:
  "constructPatchLevelSCInterpOp False 2 0 ex_getCellIndex ex_interp_fcn 4 [1 / 4, 1 / 4] 0 [200]
     ex_level
   = Inr ex_interp_bdry_op"
  unfolding ex_interp_bdry_op_def by code_simp

text \<open>
  The claim of C6 fails for a point next to the boundary of the domain.  The stencil box
  of axis 0 of the point (1/4, 1/4) is [(-1,-2),(2,1)]; the kernel weights sum to 1 in
  both directions, and the 16 coefficients handed to \<open>MatSetValues\<close> sum to 1.  Ten of
  the 16 stencil locations lie outside the domain, where the DOF index field holds the
  negative sentinel; \<open>MatSetValues\<close> ignores these entries, and the assembled row 0 has
  six entries and sums to 3/8.
\<close>

theorem interp_boundary_row_sum:
  "constructPatchLevelSCInterpOp False 2 0 ex_getCellIndex ex_interp_fcn 4 [1 / 4, 1 / 4] 0 [200]
     ex_level
   = Inr ex_interp_bdry_op
   \<and> length (ex_interp_fcn (5 / 4)) = 4 \<and> sum_list (ex_interp_fcn (5 / 4)) = 1
   \<and> length (ex_interp_fcn (7 / 4)) = 4 \<and> sum_list (ex_interp_fcn (7 / 4)) = 1
   \<and> centred_stencil_box 2 ex_level 4 [0, 0] [1 / 4, 1 / 4] 0
       = \<lparr>lower = [-1, -2], upper = [2, 1]\<rparr>
   \<and> kernel_weights 2 ex_interp_fcn ex_level 4 [0, 0] [1 / 4, 1 / 4] 0
       = [ex_interp_fcn (5 / 4), ex_interp_fcn (7 / 4)]
   \<and> mat_rows ex_interp_bdry_op ! 0
       = (0, [-1, -1, -1, -1, -1, -1, -1, -1, -1, 0, 2, 4, -1, 18, 20, 22],
          [1 / 16, 1 / 16, 1 / 16, 1 / 16, 1 / 16, 1 / 16, 1 / 16, 1 / 16,
           1 / 16, 1 / 16, 1 / 16, 1 / 16, 1 / 16, 1 / 16, 1 / 16, 1 / 16])
   \<and> assembled_row (mat_rows ex_interp_bdry_op) 0
       = [(0, 1 / 16), (2, 1 / 16), (4, 1 / 16), (18, 1 / 16), (20, 1 / 16), (22, 1 / 16)]
   \<and> row_sum (assembled_row (mat_rows ex_interp_bdry_op) 0) = 3 / 8"
proof -
  have "length (ex_interp_fcn (5 / 4)) = 4" "sum_list (ex_interp_fcn (5 / 4)) = 1"
    "length (ex_interp_fcn (7 / 4)) = 4" "sum_list (ex_interp_fcn (7 / 4)) = 1"
    by (simp_all add: ex_interp_fcn_def)
  moreover have "centred_stencil_box 2 ex_level 4 [0, 0] [1 / 4, 1 / 4] 0
       = \<lparr>lower = [-1, -2], upper = [2, 1]\<rparr>"
    "kernel_weights 2 ex_interp_fcn ex_level 4 [0, 0] [1 / 4, 1 / 4] 0
       = [ex_interp_fcn (5 / 4), ex_interp_fcn (7 / 4)]"
    by code_simp+
  moreover have "mat_rows ex_interp_bdry_op ! 0
       = (0, [-1, -1, -1, -1, -1, -1, -1, -1, -1, 0, 2, 4, -1, 18, 20, 22],
          [1 / 16, 1 / 16, 1 / 16, 1 / 16, 1 / 16, 1 / 16, 1 / 16, 1 / 16,
           1 / 16, 1 / 16, 1 / 16, 1 / 16, 1 / 16, 1 / 16, 1 / 16, 1 / 16])"
    by (simp add: ex_interp_bdry_op_def)
  moreover have "assembled_row (mat_rows ex_interp_bdry_op) 0
       = [(0, 1 / 16), (2, 1 / 16), (4, 1 / 16), (18, 1 / 16), (20, 1 / 16), (22, 1 / 16)]"
    by code_simp
  moreover have "row_sum (assembled_row (mat_rows ex_interp_bdry_op) 0) = 3 / 8"
    by code_simp
  ultimately show ?thesis
    using ex_interp_run_bdry by (simp only: simp_thms)
qed

text \<open>
  C6, as amended.  The rows a successful call hands to \<open>MatSetValues\<close> are, in order, the
  rows \<open>interp_row\<close> of the axes of the local points: the columns are the DOF indices on
  the stencil box, the coefficients the tensor product, across the stencil box, of the
  per-axis kernel weights evaluated at the offsets between the point and the lowest
  stencil line.  When every weight array the kernel fills has the (even) stencil width
  and sums to 1, the coefficients of every row sum to 1, over exact arithmetic, for
  interior and boundary-adjacent points alike.  The assembled row of a non-negative row
  number whose unmasked (non-negative) columns are pairwise different holds the
  coefficients of the unmasked columns and drops those of the masked ones; it sums to 1
  when no stencil location is masked.  With rounded products the coefficients are those
  of \<open>rounded_product_row\<close> (the exact coefficients when the products are exact); when
  the weights are not negative, the products have a relative error of at most \<open>2^-53\<close>
  and there are at most three dimensions, the coefficients of a row sum to 1 within
  \<open>1e-12\<close>.
\<close>

theorem interp_rows_sum_to_one:
  assumes "constructPatchLevelSCInterpOp ndebug NDIM mpi_rank getCellIndex interp_fcn
             interp_stencil X_arr X_lower num_dofs_per_proc level = Inr A"
    and "\<forall>r. length (interp_fcn r) = nat (round_interp_stencil interp_stencil)
              \<and> sum_list (interp_fcn r) = 1"
  shows "mat_rows A
           = concat (map (\<lambda>k. map (interp_row NDIM getCellIndex interp_fcn
                                       (round_interp_stencil interp_stencil) X_arr X_lower level k)
                                  [0..<NDIM])
                         [0..<length X_arr div NDIM])
       \<and> (\<forall>row cols vals. (row, cols, vals) \<in> set (mat_rows A) \<longrightarrow>
            sum_list vals = 1
            \<and> (0 \<le> row \<and> distinct (filter (\<lambda>c. 0 \<le> c) cols) \<longrightarrow>
                 assembled_row (mat_rows A) row = filter (\<lambda>cv. 0 \<le> fst cv) (zip cols vals)
                 \<and> ((\<forall>c \<in> set cols. 0 \<le> c) \<longrightarrow>
                      row_sum (assembled_row (mat_rows A) row) = 1)))
       \<and> (\<forall>k axis. tensor_product_row NDIM getCellIndex interp_fcn
                       (round_interp_stencil interp_stencil) X_arr level k axis
                     = rounded_product_row (*) NDIM getCellIndex interp_fcn
                         (round_interp_stencil interp_stencil) X_arr level k axis)
       \<and> (\<forall>fmul k axis.
            relative_error (1 / 2 ^ 53) fmul \<and> NDIM \<le> 3
            \<and> (\<forall>r. \<forall>x \<in> set (interp_fcn r). 0 \<le> x) \<longrightarrow>
            \<bar>sum_list (rounded_product_row fmul NDIM getCellIndex interp_fcn
                          (round_interp_stencil interp_stencil) X_arr level k axis) - 1\<bar>
              \<le> 1 / 10 ^ 12)"
proof (intro conjI allI impI)
  fix fmul k axis
  assume "relative_error (1 / 2 ^ 53) fmul \<and> NDIM \<le> 3
            \<and> (\<forall>r. \<forall>x \<in> set (interp_fcn r). 0 \<le> x)"
  then show "\<bar>sum_list (rounded_product_row fmul NDIM getCellIndex interp_fcn
                          (round_interp_stencil interp_stencil) X_arr level k axis) - 1\<bar>
              \<le> 1 / 10 ^ 12"
    using assms(2) by (intro rounded_product_row_sum) simp_all
next
  fix k axis
  show "tensor_product_row NDIM getCellIndex interp_fcn
                       (round_interp_stencil interp_stencil) X_arr level k axis
                     = rounded_product_row (*) NDIM getCellIndex interp_fcn
                         (round_interp_stencil interp_stencil) X_arr level k axis"
    by (simp add: rounded_product_row_exact)
next
  let ?s = "round_interp_stencil interp_stencil"
  let ?row = "interp_row NDIM getCellIndex interp_fcn ?s X_arr X_lower level"
  show rows: "mat_rows A
      = concat (map (\<lambda>k. map (?row k) [0..<NDIM]) [0..<length X_arr div NDIM])"
    using assms(1) by (rule interp_rows)
  fix row cols vals
  assume mem: "(row, cols, vals) \<in> set (mat_rows A)"
  then obtain k axis where e: "(row, cols, vals) = ?row k axis"
    unfolding rows by auto
  then have vals: "vals = tensor_product_row NDIM getCellIndex interp_fcn ?s X_arr level k axis"
    and cols: "cols = stencil_columns NDIM getCellIndex ?s X_arr level k axis"
    by (simp_all add: interp_row_def)
  show sum: "sum_list vals = 1"
    unfolding vals using assms(2) by (rule tensor_product_row_sum)
  have len: "length cols = length vals"
    unfolding vals cols
    by (simp add: stencil_columns_def tensor_product_row_def kernel_row_def Let_def)
  assume c: "0 \<le> row \<and> distinct (filter (\<lambda>c. 0 \<le> c) cols)"
  have "filter (\<lambda>y. fst y = fst (row, cols, vals)) (mat_rows A) = [(row, cols, vals)]"
    using interp_rows_distinct [OF rows] mem by (rule filter_distinct_map)
  then have once: "filter (\<lambda>e. fst e = row) (mat_rows A) = [(row, cols, vals)]" by simp
  show a: "assembled_row (mat_rows A) row = filter (\<lambda>cv. 0 \<le> fst cv) (zip cols vals)"
    using once c len by (intro assembled_row_single) simp_all
  assume "\<forall>c \<in> set cols. 0 \<le> c"
  then have "filter (\<lambda>cv. 0 \<le> fst cv) (zip cols vals) = zip cols vals"
    by (rule filter_zip_all)
  then show "row_sum (assembled_row (mat_rows A) row) = 1"
    unfolding a using len sum by (simp add: row_sum_def)
qed

theorem interp_rows_sum_to_one_witness:
  "mat_rows ex_interp_op
     = concat (map (\<lambda>k. map (interp_row 2 ex_getCellIndex ex_interp_fcn (round_interp_stencil 4)
                                 [7 / 2, 7 / 2] 0 ex_level k) [0..<2])
                   [0..<length [7 / 2, 7 / 2 :: rat] div 2])
   \<and> sum_list (snd (snd (mat_rows ex_interp_op ! 0))) = 1
   \<and> assembled_row (mat_rows ex_interp_op) 0
       = zip [22, 24, 26, 28, 40, 42, 44, 46, 58, 60, 62, 64, 76, 78, 80, 82]
             [1 / 16, 1 / 16, 1 / 16, 1 / 16, 1 / 16, 1 / 16, 1 / 16, 1 / 16,
              1 / 16, 1 / 16, 1 / 16, 1 / 16, 1 / 16, 1 / 16, 1 / 16, 1 / 16]
   \<and> row_sum (assembled_row (mat_rows ex_interp_op) 0) = 1
   \<and> sum_list (snd (snd (mat_rows ex_interp_bdry_op ! 0))) = 1
   \<and> assembled_row (mat_rows ex_interp_bdry_op) 0
       = [(0, 1 / 16), (2, 1 / 16), (4, 1 / 16), (18, 1 / 16), (20, 1 / 16), (22, 1 / 16)]
   \<and> \<bar>sum_list (rounded_product_row ex_fmul 2 ex_getCellIndex ex_interp_fcn
                    (round_interp_stencil 4) [7 / 2, 7 / 2] ex_level 0 0) - 1\<bar>
       \<le> 1 / 10 ^ 12"
proof -
  have kernel: "\<forall>r. length (ex_interp_fcn r) = nat (round_interp_stencil 4)
      \<and> sum_list (ex_interp_fcn r) = 1"
    by (simp add: ex_interp_fcn_def round_interp_stencil_def smod_int_alt_def)
  note t = interp_rows_sum_to_one [OF ex_interp_run_even kernel]
  let ?cols = "[22, 24, 26, 28, 40, 42, 44, 46, 58, 60, 62, 64, 76, 78, 80, 82] :: int list"
  let ?vals = "[1 / 16, 1 / 16, 1 / 16, 1 / 16, 1 / 16, 1 / 16, 1 / 16, 1 / 16,
              1 / 16, 1 / 16, 1 / 16, 1 / 16, 1 / 16, 1 / 16, 1 / 16, 1 / 16] :: rat list"
  have row: "mat_rows ex_interp_op ! 0 = (0, ?cols, ?vals)"
    by (simp add: ex_interp_op_def)
  have mem: "(0, ?cols, ?vals) \<in> set (mat_rows ex_interp_op)"
    by (simp add: ex_interp_op_def)
  have c: "(0::int) \<le> 0 \<and> distinct (filter (\<lambda>c. 0 \<le> c) ?cols)"
    by simp
  have nn: "\<forall>c \<in> set ?cols. 0 \<le> c"
    by simp
  from conjunct1 [OF conjunct2 [OF t]] mem c nn
  have r: "sum_list ?vals = 1"
    "assembled_row (mat_rows ex_interp_op) 0 = filter (\<lambda>cv. 0 \<le> fst cv) (zip ?cols ?vals)"
    "row_sum (assembled_row (mat_rows ex_interp_op) 0) = 1"
    by blast+
  have s: "sum_list (snd (snd (mat_rows ex_interp_op ! 0))) = 1"
    unfolding row using r(1) by simp
  have a: "assembled_row (mat_rows ex_interp_op) 0 = zip ?cols ?vals"
    unfolding r(2) by simp
  note t' = interp_rows_sum_to_one [OF ex_interp_run_bdry kernel]
  let ?bcols = "[-1, -1, -1, -1, -1, -1, -1, -1, -1, 0, 2, 4, -1, 18, 20, 22] :: int list"
  have row': "mat_rows ex_interp_bdry_op ! 0 = (0, ?bcols, ?vals)"
    by (simp add: ex_interp_bdry_op_def)
  have mem': "(0, ?bcols, ?vals) \<in> set (mat_rows ex_interp_bdry_op)"
    by (simp add: ex_interp_bdry_op_def)
  have c': "(0::int) \<le> 0 \<and> distinct (filter (\<lambda>c. 0 \<le> c) ?bcols)"
    by simp
  from conjunct1 [OF conjunct2 [OF t']] mem' c'
  have r': "sum_list ?vals = 1"
    "assembled_row (mat_rows ex_interp_bdry_op) 0
       = filter (\<lambda>cv. 0 \<le> fst cv) (zip ?bcols ?vals)"
    by blast+
  have s': "sum_list (snd (snd (mat_rows ex_interp_bdry_op ! 0))) = 1"
    unfolding row' using r'(1) by simp
  have a': "assembled_row (mat_rows ex_interp_bdry_op) 0
       = [(0, 1 / 16), (2, 1 / 16), (4, 1 / 16), (18, 1 / 16), (20, 1 / 16), (22, 1 / 16)]"
    unfolding r'(2) by simp
  have fl: "relative_error (1 / 2 ^ 53) ex_fmul \<and> (2::nat) \<le> 3
      \<and> (\<forall>r. \<forall>x \<in> set (ex_interp_fcn r). 0 \<le> x)"
    by (simp add: relative_error_def ex_fmul_def ex_interp_fcn_def algebra_simps)
  from conjunct2 [OF conjunct2 [OF conjunct2 [OF t]]] fl
  have b: "\<bar>sum_list (rounded_product_row ex_fmul 2 ex_getCellIndex ex_interp_fcn
                    (round_interp_stencil 4) [7 / 2, 7 / 2] ex_level 0 0) - 1\<bar>
       \<le> 1 / 10 ^ 12"
    by blast
  from conjunct1 [OF t] s a r(3) s' a' b show ?thesis
    by (intro conjI)
qed

section \<open>The cell-centred prolongation\<close>

lemma cell_read_Inr: "cell_read data i d = Inr v \<Longrightarrow> v = array data i d"
  by (simp add: cell_read_def split: if_splits)


lemma intvector_divide_Inr:
  "intvector_divide NDIM a b = Inr r \<Longrightarrow> r = map (\<lambda>d. a ! d sdiv b ! d) [0..<NDIM]"
  by (simp add: intvector_divide_def split: if_splits)

lemma map_by_index: "map (\<lambda>p. f (xs ! p)) [0..<length xs] = map f xs"
  by (rule nth_equalityI) simp_all





lemma fine_locations_iff:
  "(p, i, d) \<in> set (fine_locations levels) \<longleftrightarrow>
     p < length (fine_patches levels)
     \<and> i \<in> set (box_iterator (patch_box (fine_patches levels ! p)))
     \<and> d < depth (patch_data (fine_patches levels ! p))"
  by (fastforce simp: fine_locations_def)



section \<open>The side-centred prolongation\<close>

lemma mapM_Inr_mem:
  "mapM f xs = Inr ys \<Longrightarrow> y \<in> set ys \<Longrightarrow> \<exists>x \<in> set xs. f x = Inr y"
  by (induction xs arbitrary: ys) (auto simp: bind_Inr_iff)

lemma prolong_side_map_nth:
  assumes "d < n"
  shows "prolong_side_map mapI ao off ratio dl nc n axis i ! d
           = ao (mapI (coarsen i ratio) dl nc d off)"
    and "prolong_side_map mapI ao off ratio dl nc n axis i ! (n + d)
           = ao (mapI ((coarsen i ratio)[axis := coarsen i ratio ! axis + 1]) dl nc d off)"
  using assms by (simp_all add: prolong_side_map_def Let_def nth_append)

lemma prolong_side_values_eq:
  assumes "prolong_side_values mapI ao off Rf ratio dl nc data axis i = Inr rs"
  shows "rs = (if list_all (\<lambda>d. on_proc Rf (array data axis i d)) [0..<depth data]
               then map (\<lambda>d. (array data axis i d,
                      [ao (mapI (coarsen i ratio) dl nc d off),
                       ao (mapI ((coarsen i ratio)[axis := coarsen i ratio ! axis + 1]) dl nc d off)],
                      [prolong_w_L ratio axis i, 1 - prolong_w_L ratio axis i]))
                    [0..<depth data]
               else [])"
proof -
  let ?m = "prolong_side_map mapI ao off ratio dl nc (depth data) axis i"
  from assms [unfolded prolong_side_values_def Let_def] obtain idx where
    idx: "mapM (\<lambda>d. side_read data axis i d) [0..<depth data] = Inr idx"
    and rest: "(if \<not> list_all (on_proc Rf) idx then Inr []
         else mapM (\<lambda>d. bind (side_read data axis i d) (\<lambda>row.
                 Inr (row, [?m ! d, ?m ! (depth data + d)],
                      [prolong_w_L ratio axis i, 1 - prolong_w_L ratio axis i])))
              [0..<depth data]) = Inr rs"
    by (auto simp: bind_Inr_iff)
  have "idx = map (\<lambda>d. array data axis i d) [0..<depth data]"
    using idx by (rule mapM_Inr_eq) (rule side_read_Inr)
  then have own: "list_all (on_proc Rf) idx
      \<longleftrightarrow> list_all (\<lambda>d. on_proc Rf (array data axis i d)) [0..<depth data]"
    by (simp add: list_all_iff)
  show ?thesis
  proof (cases "list_all (on_proc Rf) idx")
    case False
    then show ?thesis using rest own by simp
  next
    case True
    with rest have m: "mapM (\<lambda>d. bind (side_read data axis i d) (\<lambda>row.
                 Inr (row, [?m ! d, ?m ! (depth data + d)],
                      [prolong_w_L ratio axis i, 1 - prolong_w_L ratio axis i])))
              [0..<depth data] = Inr rs"
      by simp
    have "rs = map (\<lambda>d. (array data axis i d,
                      [ao (mapI (coarsen i ratio) dl nc d off),
                       ao (mapI ((coarsen i ratio)[axis := coarsen i ratio ! axis + 1]) dl nc d off)],
                      [prolong_w_L ratio axis i, 1 - prolong_w_L ratio axis i]))
                    [0..<depth data]"
      using m by (rule mapM_Inr_eq)
        (auto simp: bind_Inr_iff prolong_side_map_nth dest!: side_read_Inr)
    then show ?thesis using True own by simp
  qed
qed

lemma length_box_indices: "i \<in> set (box_indices lo up) \<Longrightarrow> length i = length lo"
  by (induction lo up arbitrary: i rule: box_indices.induct) auto

lemma prolong_w_L_mod:
  assumes "axis < length i"
  shows "prolong_w_L ratio axis i
       = 1 - of_int (i ! axis mod ratio ! axis) / of_int (ratio ! axis)"
proof -
  have "refine (coarsen i ratio) ratio ! axis = i ! axis div ratio ! axis * ratio ! axis"
    using assms by (simp add: refine_def coarsen_def)
  then have "i ! axis - refine (coarsen i ratio) ratio ! axis = i ! axis mod ratio ! axis"
    by (simp add: minus_div_mult_eq_mod)
  then have "(of_int (i ! axis) :: rat) - of_int (refine (coarsen i ratio) ratio ! axis)
      = of_int (i ! axis mod ratio ! axis)"
    by (metis of_int_diff)
  then show ?thesis by (simp add: prolong_w_L_def)
qed

lemma prolong_w_L_range:
  assumes "axis < length i" "0 < ratio ! axis"
  shows "0 < prolong_w_L ratio axis i \<and> prolong_w_L ratio axis i \<le> 1"
proof -
  let ?r = "ratio ! axis"
  let ?m = "i ! axis mod ?r"
  have "0 \<le> ?m" "?m < ?r" using assms(2) by simp_all
  then have "0 \<le> (of_int ?m :: rat) / of_int ?r" "(of_int ?m :: rat) / of_int ?r < 1"
    using assms(2) by simp_all
  then show ?thesis
    by (simp add: prolong_w_L_mod [OF assms(1)])
qed

lemma side_box_index_length:
  assumes "length (lower b) = NDIM" "length (upper b) = NDIM"
    and "i \<in> set (box_iterator (toSideBox b axis))"
  shows "length i = NDIM"
  using assms length_box_indices [of i "lower (toSideBox b axis)" "upper (toSideBox b axis)"]
  by (simp add: box_iterator_def toSideBox_def)

lemma brackets_bracket:
  assumes "axis < length i" "0 < ratio ! axis"
  shows "refine (coarsen i ratio) ratio ! axis \<le> i ! axis"
    and "i ! axis < refine ((coarsen i ratio)[axis := coarsen i ratio ! axis + 1]) ratio ! axis"
proof -
  define r where "r = ratio ! axis"
  define q where "q = i ! axis div r"
  define m where "m = i ! axis mod r"
  have lo: "refine (coarsen i ratio) ratio ! axis = r * q"
    using assms(1) by (simp add: refine_def coarsen_def r_def q_def)
  have up: "refine ((coarsen i ratio)[axis := coarsen i ratio ! axis + 1]) ratio ! axis
      = r * q + r"
    using assms(1) by (simp add: refine_def coarsen_def r_def q_def algebra_simps)
  have m: "0 \<le> m" "m < r"
    using assms(2) by (simp_all add: m_def r_def)
  have d: "i ! axis = r * q + m"
    unfolding q_def m_def by (simp add: mult_div_mod_eq)
  show "refine (coarsen i ratio) ratio ! axis \<le> i ! axis"
    unfolding lo d using m(1) by simp
  show "i ! axis < refine ((coarsen i ratio)[axis := coarsen i ratio ! axis + 1]) ratio ! axis"
    unfolding up d using m(2) by simp
qed

lemma upper_bracket_beyond:
  assumes "axis < length i" "0 < ratio ! axis"
    and "i ! axis \<le> ratio ! axis * (cu + 1)"
    and "cu + 1 < (coarsen i ratio)[axis := coarsen i ratio ! axis + 1] ! axis"
  shows "1 - prolong_w_L ratio axis i = 0"
proof -
  define r where "r = ratio ! axis"
  define q where "q = i ! axis div r"
  define m where "m = i ! axis mod r"
  have r: "0 < r" using assms(2) by (simp add: r_def)
  have m: "0 \<le> m" "m < r"
    using assms(2) by (simp_all add: m_def r_def)
  have d: "i ! axis = r * q + m"
    unfolding q_def m_def by (simp add: mult_div_mod_eq)
  have "(coarsen i ratio)[axis := coarsen i ratio ! axis + 1] ! axis = q + 1"
    using assms(1) by (simp add: coarsen_def q_def r_def)
  with assms(4) have "cu + 1 \<le> q" by simp
  then have "r * (cu + 1) \<le> r * q"
    using r by simp
  moreover have "r * q + m \<le> r * (cu + 1)"
    using assms(3) unfolding d r_def .
  ultimately have "m = 0" using m(1) by linarith
  then show ?thesis
    by (simp add: prolong_w_L_mod [OF assms(1)] m_def r_def)
qed

lemma concat_map_over_concat:
  "concat (map f (concat xss)) = concat (map (\<lambda>xs. concat (map f xs)) xss)"
  by (induction xss) simp_all

lemma concat_map_concat: "concat (map concat xss) = concat (concat xss)"
  by (induction xss) simp_all

lemma concat_map_concat_concat:
  "concat (map (\<lambda>r. concat (map concat r)) rs) = concat (concat (concat rs))"
  by (induction rs) (simp_all add: concat_map_concat)

lemma prolong_side_rows:
  assumes call: "constructProlongationOp_side ndebug NDIM mpi_rank mapI ao off nf nc levels
                   fine_domain_boxes = Inr A"
    and Rf: "determine_index_ranges nf mpi_rank = Inr Rf"
  shows "mat_rows A = concat (map (side_rows NDIM mapI ao off Rf levels) (side_locations NDIM levels))"
proof -
  let ?cdb = "coarse_domain_boxes levels ! 0"
  let ?nc = "side_num_cells NDIM (lower ?cdb) (upper ?cdb)"
  let ?ratio = "fine_to_coarse_ratio NDIM levels"
  let ?row = "\<lambda>(patch :: (nat \<Rightarrow> Index \<Rightarrow> nat \<Rightarrow> int) Patch) axis i.
      (if list_all (\<lambda>d. on_proc Rf (array (patch_data patch) axis i d)) [0..<depth (patch_data patch)]
       then map (\<lambda>d. (array (patch_data patch) axis i d,
              [ao (mapI (coarsen i ?ratio) (lower ?cdb) (?nc axis) d
                     (off + prolong_data_offset NDIM ?nc (depth (patch_data patch)) axis)),
               ao (mapI ((coarsen i ?ratio)[axis := coarsen i ?ratio ! axis + 1]) (lower ?cdb)
                     (?nc axis) d
                     (off + prolong_data_offset NDIM ?nc (depth (patch_data patch)) axis))],
              [prolong_w_L ?ratio axis i, 1 - prolong_w_L ?ratio axis i]))
            [0..<depth (patch_data patch)]
       else [])"
  let ?g = "\<lambda>patch :: (nat \<Rightarrow> Index \<Rightarrow> nat \<Rightarrow> int) Patch.
      map (\<lambda>axis. map (\<lambda>i. ?row patch axis i) (box_iterator (toSideBox (patch_box patch) axis)))
          [0..<NDIM]"
  from call Rf obtain rows where
    rows: "mapM (\<lambda>fine_patch.
                mapM (\<lambda>axis.
                   mapM (prolong_side_values mapI ao
                           (off + prolong_data_offset NDIM ?nc (depth (patch_data fine_patch)) axis)
                           Rf ?ratio (lower ?cdb) (?nc axis) (patch_data fine_patch) axis)
                        (box_iterator (toSideBox (patch_box fine_patch) axis)))
                  [0..<NDIM])
              (fine_patches levels) = Inr rows"
    and A: "mat_rows A = concat (concat (concat rows))"
    by (auto simp: constructProlongationOp_side_def Let_def bind_Inr_iff fine_to_coarse_ratio_def
        dest!: intvector_divide_Inr read_at_Inr)
  have "rows = map ?g (fine_patches levels)"
    using rows
  proof (rule mapM_Inr_eq)
    fix patch :: "(nat \<Rightarrow> Index \<Rightarrow> nat \<Rightarrow> int) Patch" and y
    assume "mapM (\<lambda>axis.
                   mapM (prolong_side_values mapI ao
                           (off + prolong_data_offset NDIM ?nc (depth (patch_data patch)) axis)
                           Rf ?ratio (lower ?cdb) (?nc axis) (patch_data patch) axis)
                        (box_iterator (toSideBox (patch_box patch) axis)))
                  [0..<NDIM] = Inr y"
    then show "y = ?g patch"
    proof (rule mapM_Inr_eq)
      fix axis z
      assume "mapM (prolong_side_values mapI ao
                           (off + prolong_data_offset NDIM ?nc (depth (patch_data patch)) axis)
                           Rf ?ratio (lower ?cdb) (?nc axis) (patch_data patch) axis)
                        (box_iterator (toSideBox (patch_box patch) axis)) = Inr z"
      then show "z = map (\<lambda>i. ?row patch axis i) (box_iterator (toSideBox (patch_box patch) axis))"
        by (rule mapM_Inr_eq) (rule prolong_side_values_eq)
    qed
  qed
  then have "concat (concat (concat rows))
      = concat (map (\<lambda>patch. concat (map (\<lambda>axis. concat (map (\<lambda>i. ?row patch axis i)
                                   (box_iterator (toSideBox (patch_box patch) axis))))
                                [0..<NDIM])) (fine_patches levels))"
    by (simp add: concat_map_concat_concat [symmetric] comp_def)
  also have "\<dots> = concat (map (\<lambda>p. concat (map (\<lambda>axis. concat (map (\<lambda>i. ?row (fine_patches levels ! p) axis i)
                                   (box_iterator (toSideBox (patch_box (fine_patches levels ! p)) axis))))
                                [0..<NDIM])) [0..<length (fine_patches levels)])"
    using map_by_index [where xs = "fine_patches levels"
        and f = "\<lambda>patch. concat (map (\<lambda>axis. concat (map (\<lambda>i. ?row patch axis i)
                                   (box_iterator (toSideBox (patch_box patch) axis))))
                                [0..<NDIM])"]
    by simp
  also have "\<dots> = concat (map (side_rows NDIM mapI ao off Rf levels) (side_locations NDIM levels))"
    by (simp add: side_locations_def concat_map_over_concat comp_def side_rows_def Let_def
        bracket_columns_def coarse_side_column_def lower_bracket_def upper_bracket_def
        cong: if_cong)
  finally show ?thesis using A by simp
qed

lemma side_locations_iff:
  "(p, axis, i) \<in> set (side_locations NDIM levels) \<longleftrightarrow>
     p < length (fine_patches levels) \<and> axis < NDIM
     \<and> i \<in> set (box_iterator (toSideBox (patch_box (fine_patches levels ! p)) axis))"
  by (fastforce simp: side_locations_def)

text \<open>
  C4, as amended.  The side-centred prolongation inserts, in loop order, one row with
  exactly two entries for every component of every fine side whose DOFs this process
  owns, and no other row.  With \<open>I_L\<close> the coarsened fine index and \<open>I_U = I_L + e_axis\<close>,
  the columns are the DOFs the coarse numbering gives \<open>I_L\<close> and \<open>I_U\<close>; the refined images
  of \<open>I_L\<close> and \<open>I_U\<close> bracket the fine side along its axis.  The weight of the lower
  bracket is \<open>w_L = 1 - (i(axis) - refine(I_L, ratio)(axis)) / ratio(axis)\<close>, the weight of
  the upper bracket is \<open>1 - w_L\<close>; they sum to 1 and each lies in [0,1].  For a fine side
  on or below the upper domain boundary whose \<open>I_U\<close> lies beyond the last coarse side, the
  weight of the upper bracket is exactly 0.  The fine-to-coarse ratio is positive and
  indices have NDIM coordinates; doubles are exact rationals here.
\<close>

theorem prolongation_side_two_entries:
  assumes "constructProlongationOp_side ndebug NDIM mpi_rank mapIndexToInteger ao coarse_ao_offset
             num_fine_dofs_per_proc num_coarse_dofs_per_proc levels fine_domain_boxes = Inr A"
    and "determine_index_ranges num_fine_dofs_per_proc mpi_rank = Inr Rf"
    and "\<forall>d < NDIM. 0 < fine_to_coarse_ratio NDIM levels ! d"
    and "\<forall>patch \<in> set (fine_patches levels).
           length (lower (patch_box patch)) = NDIM \<and> length (upper (patch_box patch)) = NDIM"
  shows "mat_rows A = concat (map (side_rows NDIM mapIndexToInteger ao coarse_ao_offset Rf levels)
                                  (side_locations NDIM levels))
       \<and> (\<forall>p axis i. (p, axis, i) \<in> set (side_locations NDIM levels) \<longrightarrow>
            prolong_w_L (fine_to_coarse_ratio NDIM levels) axis i
              = 1 - (of_int (i ! axis)
                     - of_int (refine (lower_bracket NDIM levels i)
                                 (fine_to_coarse_ratio NDIM levels) ! axis))
                    / of_int (fine_to_coarse_ratio NDIM levels ! axis)
            \<and> refine (lower_bracket NDIM levels i) (fine_to_coarse_ratio NDIM levels) ! axis
                \<le> i ! axis
            \<and> i ! axis
                < refine (upper_bracket NDIM levels axis i) (fine_to_coarse_ratio NDIM levels) ! axis
            \<and> 0 \<le> prolong_w_L (fine_to_coarse_ratio NDIM levels) axis i
            \<and> prolong_w_L (fine_to_coarse_ratio NDIM levels) axis i \<le> 1
            \<and> 0 \<le> 1 - prolong_w_L (fine_to_coarse_ratio NDIM levels) axis i
            \<and> 1 - prolong_w_L (fine_to_coarse_ratio NDIM levels) axis i \<le> 1
            \<and> prolong_w_L (fine_to_coarse_ratio NDIM levels) axis i
                + (1 - prolong_w_L (fine_to_coarse_ratio NDIM levels) axis i) = 1
            \<and> (i ! axis \<le> fine_to_coarse_ratio NDIM levels ! axis
                              * (upper (coarse_domain_boxes levels ! 0) ! axis + 1)
                 \<and> upper (coarse_domain_boxes levels ! 0) ! axis + 1
                     < upper_bracket NDIM levels axis i ! axis
               \<longrightarrow> 1 - prolong_w_L (fine_to_coarse_ratio NDIM levels) axis i = 0))"
proof (intro conjI allI impI)
  let ?ratio = "fine_to_coarse_ratio NDIM levels"
  show "mat_rows A = concat (map (side_rows NDIM mapIndexToInteger ao coarse_ao_offset Rf levels)
                                  (side_locations NDIM levels))"
    using assms(1,2) by (rule prolong_side_rows)
  fix p axis i
  assume loc: "(p, axis, i) \<in> set (side_locations NDIM levels)"
  then have p: "p < length (fine_patches levels)" and axis: "axis < NDIM"
    and i: "i \<in> set (box_iterator (toSideBox (patch_box (fine_patches levels ! p)) axis))"
    by (simp_all add: side_locations_iff)
  have "fine_patches levels ! p \<in> set (fine_patches levels)" using p by simp
  then have "length i = NDIM"
    using assms(4) i by (auto intro: side_box_index_length)
  then have len: "axis < length i" using axis by simp
  have pos: "0 < ?ratio ! axis" using assms(3) axis by simp
  show "prolong_w_L ?ratio axis i
      = 1 - (of_int (i ! axis) - of_int (refine (lower_bracket NDIM levels i) ?ratio ! axis))
            / of_int (?ratio ! axis)"
    by (simp add: prolong_w_L_def lower_bracket_def)
  show "refine (lower_bracket NDIM levels i) ?ratio ! axis \<le> i ! axis"
    unfolding lower_bracket_def by (rule brackets_bracket(1) [OF len pos])
  show "i ! axis < refine (upper_bracket NDIM levels axis i) ?ratio ! axis"
    unfolding upper_bracket_def lower_bracket_def by (rule brackets_bracket(2) [OF len pos])
  from prolong_w_L_range [OF len pos]
  show "0 \<le> prolong_w_L ?ratio axis i" "prolong_w_L ?ratio axis i \<le> 1"
    "0 \<le> 1 - prolong_w_L ?ratio axis i" "1 - prolong_w_L ?ratio axis i \<le> 1"
    by simp_all
  show "prolong_w_L ?ratio axis i + (1 - prolong_w_L ?ratio axis i) = 1"
    by simp
  assume "i ! axis \<le> ?ratio ! axis * (upper (coarse_domain_boxes levels ! 0) ! axis + 1)
      \<and> upper (coarse_domain_boxes levels ! 0) ! axis + 1 < upper_bracket NDIM levels axis i ! axis"
  then show "1 - prolong_w_L ?ratio axis i = 0"
    using upper_bracket_beyond [OF len pos, of "upper (coarse_domain_boxes levels ! 0) ! axis"]
    by (simp add: upper_bracket_def lower_bracket_def)
qed


lemma ex_prolong_side_run:
  "constructProlongationOp_side False 2 0 ex_mapIndexToInteger ex_ao 0 [40] [40] ex_side_levels
     [\<lparr>lower = [0, 0], upper = [7, 7]\<rparr>]
   = Inr ex_side_op"
  by code_simp

lemma ex_prolong_side_bdry_run:
  "constructProlongationOp_side False 2 0 ex_mapIndexToInteger ex_ao 0 [12] [40]
     ex_side_bdry_levels [\<lparr>lower = [0, 0], upper = [7, 7]\<rparr>]
   = Inr \<lparr>d_nnz = [2, 2, 2, 2, 2, 2, 2, 2, 2, 2, 1, 1],
          o_nnz = [0, 0, 0, 0, 0, 0, 0, 0, 0, 0, 1, 1],
          mat_rows =
            [(0, [18, 19], [1, 0]), (1, [18, 19], [1 / 2, 1 / 2]),
             (2, [19, 20], [1, 0]), (3, [18, 19], [1, 0]),
             (4, [18, 19], [1 / 2, 1 / 2]), (5, [19, 20], [1, 0]),
             (6, [35, 39], [1, 0]), (7, [35, 39], [1, 0]),
             (8, [35, 39], [1 / 2, 1 / 2]), (9, [35, 39], [1 / 2, 1 / 2]),
             (10, [39, 43], [1, 0]), (11, [39, 43], [1, 0])]\<rparr>"
  by code_simp

text \<open>
  The claim of C4 fails on the upper domain boundary.  The fine patch [(6,6),(7,7)] lies
  in the corner of the domain; the coarse level has the sides \<open>[(0,0),(4,3)]\<close> of axis 0,
  numbered 0 to 19, and the sides \<open>[(0,0),(3,4)]\<close> of axis 1, numbered 20 to 39.  The fine
  side (8,6) of axis 0 (row 2) coincides with the coarse side (4,3), column 19; its second
  entry is numbered for \<open>I_U = (5,3)\<close>, which is no side of the coarse level, and lands on
  column 20, the coarse side (0,0) of the other axis.  The fine side (6,8) of axis 1
  (row 10) gets a second entry on column 43, beyond the 40 coarse DOFs.  Neither is a
  bracketing coarse DOF on the same axis.
\<close>

theorem prolongation_side_upper_boundary:
  "constructProlongationOp_side False 2 0 ex_mapIndexToInteger ex_ao 0 [12] [40]
     ex_side_bdry_levels [\<lparr>lower = [0, 0], upper = [7, 7]\<rparr>]
   = Inr \<lparr>d_nnz = [2, 2, 2, 2, 2, 2, 2, 2, 2, 2, 1, 1],
          o_nnz = [0, 0, 0, 0, 0, 0, 0, 0, 0, 0, 1, 1],
          mat_rows =
            [(0, [18, 19], [1, 0]), (1, [18, 19], [1 / 2, 1 / 2]),
             (2, [19, 20], [1, 0]), (3, [18, 19], [1, 0]),
             (4, [18, 19], [1 / 2, 1 / 2]), (5, [19, 20], [1, 0]),
             (6, [35, 39], [1, 0]), (7, [35, 39], [1, 0]),
             (8, [35, 39], [1 / 2, 1 / 2]), (9, [35, 39], [1 / 2, 1 / 2]),
             (10, [39, 43], [1, 0]), (11, [39, 43], [1, 0])]\<rparr>
   \<and> array (patch_data (fine_patches ex_side_bdry_levels ! 0)) 0 [8, 6] 0 = 2
   \<and> upper_bracket 2 ex_side_bdry_levels 0 [8, 6] = [5, 3]
   \<and> \<not> box_contains (coarse_side_box ex_side_bdry_levels 0) [5, 3]
   \<and> box_contains (coarse_side_box ex_side_bdry_levels 1) [0, 0]
   \<and> coarse_side_column 2 ex_mapIndexToInteger ex_ao 0 ex_side_bdry_levels 0 1 [0, 0] 0 = 20
   \<and> array (patch_data (fine_patches ex_side_bdry_levels ! 0)) 1 [6, 8] 0 = 10
   \<and> upper_bracket 2 ex_side_bdry_levels 1 [6, 8] = [3, 5]
   \<and> \<not> box_contains (coarse_side_box ex_side_bdry_levels 1) [3, 5]"
proof -
  have "array (patch_data (fine_patches ex_side_bdry_levels ! 0)) 0 [8, 6] 0 = 2"
    "upper_bracket 2 ex_side_bdry_levels 0 [8, 6] = [5, 3]"
    "\<not> box_contains (coarse_side_box ex_side_bdry_levels 0) [5, 3]"
    "box_contains (coarse_side_box ex_side_bdry_levels 1) [0, 0]"
    "coarse_side_column 2 ex_mapIndexToInteger ex_ao 0 ex_side_bdry_levels 0 1 [0, 0] 0 = 20"
    "array (patch_data (fine_patches ex_side_bdry_levels ! 0)) 1 [6, 8] 0 = 10"
    "upper_bracket 2 ex_side_bdry_levels 1 [6, 8] = [3, 5]"
    "\<not> box_contains (coarse_side_box ex_side_bdry_levels 1) [3, 5]"
    by code_simp+
  then show ?thesis
    using ex_prolong_side_bdry_run by simp
qed

lemma ex_side_index_ranges:
  "determine_index_ranges [40] 0 = Inr \<lparr>n_local = 40, i_lower = 0, i_upper = 40, n_total = 40\<rparr>"
  "determine_index_ranges [12] 0 = Inr \<lparr>n_local = 12, i_lower = 0, i_upper = 12, n_total = 12\<rparr>"
  by code_simp+

theorem prolongation_side_two_entries_witness:
  "concat (map (side_rows 2 ex_mapIndexToInteger ex_ao 0
                  \<lparr>n_local = 40, i_lower = 0, i_upper = 40, n_total = 40\<rparr> ex_side_levels)
               (side_locations 2 ex_side_levels)) ! 24 = (24, [25, 29], [1 / 2, 1 / 2])
   \<and> refine (lower_bracket 2 ex_side_levels [2, 3]) (fine_to_coarse_ratio 2 ex_side_levels) ! 1
       \<le> [2, 3] ! 1
   \<and> [2, 3] ! 1
       < refine (upper_bracket 2 ex_side_levels 1 [2, 3]) (fine_to_coarse_ratio 2 ex_side_levels) ! 1
   \<and> 0 \<le> prolong_w_L (fine_to_coarse_ratio 2 ex_side_levels) 1 [2, 3]
   \<and> prolong_w_L (fine_to_coarse_ratio 2 ex_side_levels) 1 [2, 3] \<le> 1
   \<and> 1 - prolong_w_L (fine_to_coarse_ratio 2 ex_side_bdry_levels) 0 [8, 6] = 0"
proof -
  have ratio: "\<forall>d<2. 0 < fine_to_coarse_ratio 2 ex_side_levels ! d"
    by (simp add: fine_to_coarse_ratio_def ex_side_levels_def less_Suc_eq numeral_2_eq_2)
  have dims: "\<forall>patch \<in> set (fine_patches ex_side_levels).
          length (lower (patch_box patch)) = 2 \<and> length (upper (patch_box patch)) = 2"
    by (simp add: ex_side_levels_def)
  have loc: "(0, 1, [2, 3]) \<in> set (side_locations 2 ex_side_levels)"
    by code_simp
  note t = prolongation_side_two_entries [OF ex_prolong_side_run ex_side_index_ranges(1) ratio dims]
  have ratio': "\<forall>d<2. 0 < fine_to_coarse_ratio 2 ex_side_bdry_levels ! d"
    by (simp add: fine_to_coarse_ratio_def ex_side_bdry_levels_def less_Suc_eq numeral_2_eq_2)
  have dims': "\<forall>patch \<in> set (fine_patches ex_side_bdry_levels).
          length (lower (patch_box patch)) = 2 \<and> length (upper (patch_box patch)) = 2"
    by (simp add: ex_side_bdry_levels_def)
  have loc': "(0, 0, [8, 6]) \<in> set (side_locations 2 ex_side_bdry_levels)"
    by code_simp
  have bdry: "[8, 6] ! 0 \<le> fine_to_coarse_ratio 2 ex_side_bdry_levels ! 0
                              * (upper (coarse_domain_boxes ex_side_bdry_levels ! 0) ! 0 + 1)
      \<and> upper (coarse_domain_boxes ex_side_bdry_levels ! 0) ! 0 + 1
          < upper_bracket 2 ex_side_bdry_levels 0 [8, 6] ! 0"
    by code_simp
  note t' = prolongation_side_two_entries
    [OF ex_prolong_side_bdry_run ex_side_index_ranges(2) ratio' dims']
  have "mat_rows ex_side_op ! 24 = (24, [25, 29], [1 / 2, 1 / 2])"
    by (simp add: ex_side_op_def)
  then have "concat (map (side_rows 2 ex_mapIndexToInteger ex_ao 0
                  \<lparr>n_local = 40, i_lower = 0, i_upper = 40, n_total = 40\<rparr> ex_side_levels)
               (side_locations 2 ex_side_levels)) ! 24 = (24, [25, 29], [1 / 2, 1 / 2])"
    unfolding conjunct1 [OF t] .
  moreover from t loc have
    "refine (lower_bracket 2 ex_side_levels [2, 3]) (fine_to_coarse_ratio 2 ex_side_levels) ! 1
       \<le> [2, 3] ! 1"
    "[2, 3] ! 1
       < refine (upper_bracket 2 ex_side_levels 1 [2, 3]) (fine_to_coarse_ratio 2 ex_side_levels) ! 1"
    "0 \<le> prolong_w_L (fine_to_coarse_ratio 2 ex_side_levels) 1 [2, 3]"
    "prolong_w_L (fine_to_coarse_ratio 2 ex_side_levels) 1 [2, 3] \<le> 1"
    by blast+
  moreover from t' loc' bdry
  have "1 - prolong_w_L (fine_to_coarse_ratio 2 ex_side_bdry_levels) 0 [8, 6] = 0"
    by blast
  ultimately show ?thesis by blast
qed

section \<open>Restriction scaling inverts the column norms\<close>

lemma prolong_weights_resolved:
  assumes "axis < length i" "0 < ratio ! axis" "ratio ! axis < 2 ^ 31"
  shows "1 / 2 ^ 31 \<le> \<bar>prolong_w_L ratio axis i\<bar>
       \<and> (1 - prolong_w_L ratio axis i = 0 \<or> 1 / 2 ^ 31 \<le> \<bar>1 - prolong_w_L ratio axis i\<bar>)"
proof -
  let ?r = "ratio ! axis"
  let ?m = "i ! axis mod ?r"
  have m: "0 \<le> ?m" "?m < ?r" using assms(2) by simp_all
  have w: "prolong_w_L ratio axis i = 1 - of_int ?m / of_int ?r"
    by (rule prolong_w_L_mod [OF assms(1)])
  have rpos: "(0::rat) < of_int ?r" using assms(2) by simp
  have small: "(1::rat) / 2 ^ 31 \<le> 1 / of_int ?r"
  proof -
    have "(of_int ?r :: rat) \<le> of_int (2 ^ 31)" using assms(3) by (simp only: of_int_le_iff)
    then have "(of_int ?r :: rat) \<le> 2 ^ 31" by simp
    then show ?thesis using rpos by (simp add: frac_le)
  qed
  have "1 \<le> ?r - ?m" using m by simp
  then have "(1::rat) \<le> of_int (?r - ?m)" by (simp only: of_int_1_le_iff)
  then have "(1::rat) / of_int ?r \<le> of_int (?r - ?m) / of_int ?r"
    using rpos by (simp add: divide_right_mono)
  also have "of_int (?r - ?m) / of_int ?r = (1::rat) - of_int ?m / of_int ?r"
    using rpos by (simp add: diff_divide_distrib)
  finally have lower: "1 / 2 ^ 31 \<le> prolong_w_L ratio axis i"
    using small w by simp
  have upper: "of_int ?m / of_int ?r = (0::rat) \<or> 1 / 2 ^ 31 \<le> of_int ?m / (of_int ?r :: rat)"
  proof (cases "?m = 0")
    case True
    then show ?thesis by simp
  next
    case False
    then have "1 \<le> ?m" using m by simp
    then have "(1::rat) \<le> of_int ?m" by (simp only: of_int_1_le_iff)
    then have "(1::rat) / of_int ?r \<le> of_int ?m / of_int ?r"
      using rpos by (simp add: divide_right_mono)
    with small have "(1::rat) / 2 ^ 31 \<le> of_int ?m / of_int ?r"
      by (rule order_trans)
    then show ?thesis by blast
  qed
  have nonneg: "0 \<le> of_int ?m / (of_int ?r :: rat)" using m rpos by simp
  define q :: rat where "q = of_int ?m / of_int ?r"
  define c :: rat where "c = 1 / 2 ^ 31"
  have "c \<le> 1 - q" "q = 0 \<or> c \<le> q" "0 \<le> q" "0 < c"
    using lower upper nonneg w by (simp_all add: q_def c_def)
  then have "c \<le> \<bar>1 - q\<bar> \<and> (1 - (1 - q) = 0 \<or> c \<le> \<bar>1 - (1 - q)\<bar>)"
    by auto
  then show ?thesis
    unfolding w q_def c_def .
qed

lemma mapM_total:
  "(\<And>x. x \<in> set xs \<Longrightarrow> f x = Inr (g x)) \<Longrightarrow> mapM f xs = Inr (map g xs)"
  by (induction xs) (simp_all add: bind_def)

lemma column_norm_resolved:
  fixes c :: rat
  assumes "0 < c" "\<forall>v \<in> set vs. v = 0 \<or> c \<le> \<bar>v\<bar>"
  shows "sum_list (map abs vs) = 0 \<or> c \<le> sum_list (map abs vs)"
  using assms(2)
proof (induction vs)
  case Nil
  then show ?case by simp
next
  case (Cons v vs)
  have nn: "0 \<le> sum_list (map abs vs)" by (rule sum_list_nonneg) auto
  from Cons have "sum_list (map abs vs) = 0 \<or> c \<le> sum_list (map abs vs)" by simp
  moreover from Cons.prems have "v = 0 \<or> c \<le> \<bar>v\<bar>" by simp
  ultimately show ?case using nn by auto
qed

lemma MatGetColumnNorms_resolved:
  fixes c :: rat
  assumes "0 < c" "\<forall>row \<in> set P. length row = N \<and> (\<forall>v \<in> set row. v = 0 \<or> c \<le> \<bar>v\<bar>)" "k < N"
  shows "0 \<le> MatGetColumnNorms P N ! k
       \<and> (MatGetColumnNorms P N ! k = 0 \<or> c \<le> MatGetColumnNorms P N ! k)"
proof -
  have "\<forall>v \<in> set (map (\<lambda>row. row ! k) P). v = 0 \<or> c \<le> \<bar>v\<bar>"
    using assms(2,3) by auto
  from column_norm_resolved [OF assms(1) this]
  have "sum_list (map (\<lambda>row. \<bar>row ! k\<bar>) P) = 0 \<or> c \<le> sum_list (map (\<lambda>row. \<bar>row ! k\<bar>) P)"
    by (simp add: comp_def)
  moreover have "0 \<le> sum_list (map (\<lambda>row. \<bar>row ! k\<bar>) P)"
    by (rule sum_list_nonneg) auto
  ultimately show ?thesis
    using assms(3) by (simp add: MatGetColumnNorms_def)
qed

text \<open>
  C5.  For a prolongation matrix, whose entries are 0 or weights of magnitude at least
  \<open>2^-31\<close> (the weights of both prolongations are 1 or multiples of \<open>1 / ratio\<close> with an
  \<open>int\<close> ratio, see \<open>prolong_weights_resolved\<close>), the scaling of every owned column
  is the reciprocal of the column's 1-norm when the norm is not zero and exactly 0 when it
  is zero.  Every value is a finite number between 0 and \<open>2^31\<close>, and no division by zero
  takes place.  The tolerance comparison is only required to accept 0 as equal to 0 and to
  tell every number from \<open>2^-31\<close> upwards apart from 0.
\<close>

theorem restriction_scaling_inverts_norms:
  assumes "equalEps 0 0"
    and "\<forall>s. 1 / 2 ^ 31 \<le> s \<longrightarrow> \<not> equalEps s 0"
    and "\<forall>row \<in> set P. length row = N \<and> (\<forall>v \<in> set row. v = 0 \<or> 1 / 2 ^ 31 \<le> \<bar>v\<bar>)"
    and "iupper \<le> N"
  shows "constructRestrictionScalingOp equalEps P N ilower iupper
         = Inr (map (\<lambda>k. (k, Some (if MatGetColumnNorms P N ! k = 0 then 0
                                  else 1 / MatGetColumnNorms P N ! k)))
                    [ilower..<iupper])
       \<and> (\<forall>k < iupper. 0 \<le> (if MatGetColumnNorms P N ! k = 0 then 0
                                else 1 / MatGetColumnNorms P N ! k)
                        \<and> (if MatGetColumnNorms P N ! k = 0 then 0
                             else 1 / MatGetColumnNorms P N ! k) \<le> 2 ^ 31)"
proof (intro conjI allI impI)
  let ?norms = "MatGetColumnNorms P N"
  let ?inv = "map (\<lambda>sum. if \<not> equalEps sum 0 then reciprocal sum else Some 0) ?norms"
  have len: "length ?norms = N" by (simp add: MatGetColumnNorms_def)
  have entry: "?inv ! k = Some (if ?norms ! k = 0 then 0 else 1 / ?norms ! k)" if "k < N" for k
  proof -
    have "(0::rat) < 1 / 2 ^ 31" by simp
    from MatGetColumnNorms_resolved [OF this assms(3) that]
    consider "?norms ! k = 0" | "1 / 2 ^ 31 \<le> ?norms ! k" by auto
    then show ?thesis
    proof cases
      case 1
      then show ?thesis using that len assms(1) by simp
    next
      case 2
      then have "\<not> equalEps (?norms ! k) 0" using assms(2) by blast
      moreover have "?norms ! k \<noteq> 0" using 2 by auto
      ultimately show ?thesis using that len by (simp add: reciprocal_def)
    qed
  qed
  show "constructRestrictionScalingOp equalEps P N ilower iupper
         = Inr (map (\<lambda>k. (k, Some (if ?norms ! k = 0 then 0 else 1 / ?norms ! k)))
                    [ilower..<iupper])"
    unfolding constructRestrictionScalingOp_def Let_def
  proof (rule mapM_total)
    fix k assume "k \<in> set [ilower..<iupper]"
    then have "k < N" using assms(4) by simp
    then show "bind (read_at ?inv k) (\<lambda>v. Inr (k, v))
        = Inr (k, Some (if ?norms ! k = 0 then 0 else 1 / ?norms ! k))"
      using entry [of k] len by (simp add: bind_def read_at_def)
  qed
next
  fix k assume "k < iupper"
  then have k: "k < N" using assms(4) by simp
  let ?n = "MatGetColumnNorms P N ! k"
  have "(0::rat) < 1 / 2 ^ 31" by simp
  from MatGetColumnNorms_resolved [OF this assms(3) k]
  have "?n = 0 \<or> 1 / 2 ^ 31 \<le> ?n" by auto
  then show "0 \<le> (if ?n = 0 then 0 else 1 / ?n)"
    by auto
  from \<open>?n = 0 \<or> 1 / 2 ^ 31 \<le> ?n\<close> show "(if ?n = 0 then 0 else 1 / ?n) \<le> 2 ^ 31"
  proof
    assume "?n = 0" then show ?thesis by simp
  next
    assume a: "1 / 2 ^ 31 \<le> ?n"
    have "(0::rat) < 1 / 2 ^ 31" by simp
    then have pos: "0 < ?n" using a by (rule less_le_trans)
    have "1 \<le> ?n * 2 ^ 31" using a by (simp add: divide_le_eq)
    then have "1 / ?n \<le> 2 ^ 31" using pos by (simp add: divide_le_eq mult.commute)
    then show ?thesis using pos by simp
  qed
qed

lemma MathUtilities_equalEps_zero:
  "MathUtilities_equalEps s 0 \<longleftrightarrow> \<bar>s\<bar> < 1 / 2 ^ 78"
proof (cases "\<bar>s\<bar> \<le> 1 / 2 ^ 52")
  case True
  then have "max \<bar>s\<bar> (1 / 2 ^ 52) = 1 / 2 ^ 52" by simp
  then have "MathUtilities_equalEps s 0 \<longleftrightarrow> \<bar>s\<bar> * 2 ^ 52 < 1 / 2 ^ 26"
    by (simp add: MathUtilities_equalEps_def Let_def)
  also have "\<dots> \<longleftrightarrow> \<bar>s\<bar> < 1 / 2 ^ 78"
    by (simp add: field_simps)
  finally show ?thesis .
next
  case False
  then have big: "1 / 2 ^ 52 < \<bar>s\<bar>" by simp
  then have "max \<bar>s\<bar> (1 / 2 ^ 52) = \<bar>s\<bar>" "\<bar>s\<bar> \<noteq> 0" by auto
  then have "\<not> MathUtilities_equalEps s 0"
    by (simp add: MathUtilities_equalEps_def Let_def)
  moreover have "\<not> \<bar>s\<bar> < 1 / 2 ^ 78" using big by simp
  ultimately show ?thesis by simp
qed


lemma restriction_scaling_tiny_norm:
  "constructRestrictionScalingOp MathUtilities_equalEps [[1 / 2 ^ 100]] 1 0 1 = Inr [(0, Some 0)]"
  by code_simp

theorem restriction_scaling_inverts_norms_witness:
  "constructRestrictionScalingOp MathUtilities_equalEps [[1, 0, 1 / 2], [1, 0, 1 / 2]] 3 0 3
   = Inr [(0, Some (1 / 2)), (1, Some 0), (2, Some 1)]"
proof -
  have h1: "MathUtilities_equalEps 0 0"
    by (simp add: MathUtilities_equalEps_zero)
  have h2: "\<forall>s. 1 / 2 ^ 31 \<le> s \<longrightarrow> \<not> MathUtilities_equalEps s 0"
    by (auto simp: MathUtilities_equalEps_zero)
  have h3: "\<forall>row \<in> set [[1, 0, 1 / 2], [1, 0, 1 / 2 :: rat]].
      length row = 3 \<and> (\<forall>v \<in> set row. v = 0 \<or> 1 / 2 ^ 31 \<le> \<bar>v\<bar>)"
    by simp
  have norms: "MatGetColumnNorms [[1, 0, 1 / 2], [1, 0, 1 / 2]] 3 = [2, 0, 1]"
    by code_simp
  have range: "[0..<3] = [0, 1, 2]"
    by code_simp
  show ?thesis
    using conjunct1 [OF restriction_scaling_inverts_norms
        [where equalEps = MathUtilities_equalEps and P = "[[1, 0, 1 / 2], [1, 0, 1 / 2]]"
          and N = 3 and ilower = 0 and iupper = 3, OF h1 h2 h3]]
    by (simp add: norms range)
qed

section \<open>Index sets without overlap\<close>

lemma foldM_invariant:
  assumes "foldM f s xs = Inr s'" "I s" "\<And>s x s'. I s \<Longrightarrow> x \<in> set xs \<Longrightarrow> f s x = Inr s' \<Longrightarrow> I s'"
  shows "I s'"
  using assms
proof (induction xs arbitrary: s)
  case Nil
  then show ?case by simp
next
  case (Cons x xs)
  from Cons.prems(1) obtain s1 where s1: "f s x = Inr s1" and rest: "foldM f s1 xs = Inr s'"
    by (auto simp: bind_Inr_iff)
  have "I s1" by (rule Cons.prems(3) [OF Cons.prems(2) _ s1]) simp
  then show ?case using Cons.prems(3) by (intro Cons.IH [OF rest]) auto
qed

lemma write_at_Inr: "write_at xs i x = Inr ys \<Longrightarrow> 0 \<le> i \<and> i < int (length xs) \<and> ys = xs[nat i := x]"
  by (simp add: write_at_def split: if_splits)

lemma read_int_Inr: "read_int xs i = Inr x \<Longrightarrow> 0 \<le> i \<and> i < int (length xs) \<and> x = xs ! nat i"
  by (simp add: read_int_def split: if_splits)

lemma asm_index_sets_shared:
  assumes "asm_index_sets False st local_dofs overlap_dofs = Inr st'" "shared_sets L N c st"
  shows "shared_sets L N (c + 1) st'"
proof -
  let ?objs = "petsc_objects st"
  let ?new = "\<lparr>refct = 1, indices = sort local_dofs\<rparr>"
  have cnt: "subdomain_counter st = int c" and len: "length ?objs = L + c"
    and lo: "length (is_overlap st) = N" and ln: "length (is_nonoverlap st) = N"
    and old: "\<And>k. k < c \<Longrightarrow> k < N \<Longrightarrow>
           is_overlap st ! k = Some (L + k) \<and> is_nonoverlap st ! k = Some (L + k)
           \<and> refct (?objs ! (L + k)) = 2"
    using assms(2) by (simp_all add: shared_sets_def)
  from assms(1) obtain ino shared objs io where
    w1: "write_at (is_nonoverlap st) (int c) (Some (length ?objs)) = Inr ino"
    and r: "read_int ino (int c) = Inr shared"
    and ref: "PetscObjectReference (?objs @ [?new]) shared = Inr objs"
    and w2: "write_at (is_overlap st) (int c) shared = Inr io"
    and st': "st' = \<lparr>petsc_objects = objs, is_overlap = io, is_nonoverlap = ino,
                      subdomain_counter = int c + 1\<rparr>"
    by (auto simp: asm_index_sets_def Let_def ISCreateGeneral_def bind_Inr_iff cnt)
  from write_at_Inr [OF w1] have c: "c < N"
    and ino: "ino = (is_nonoverlap st)[c := Some (L + c)]"
    using ln len by auto
  from read_int_Inr [OF r] ino c ln have shared: "shared = Some (L + c)" by simp
  then have "shared = Some (length ?objs)" by (simp add: len)
  with ref have objs: "objs = ?objs @ [\<lparr>refct = 2, indices = sort local_dofs\<rparr>]"
    by (auto simp: PetscObjectReference_def numeral_2_eq_2)
  from write_at_Inr [OF w2] shared have io: "io = (is_overlap st)[c := Some (L + c)]"
    by simp
  show ?thesis
    unfolding shared_sets_def st'
  proof (intro conjI allI impI)
    fix k assume k: "k < c + 1" "k < N"
    show "is_overlap \<lparr>petsc_objects = objs, is_overlap = io, is_nonoverlap = ino,
                      subdomain_counter = int c + 1\<rparr> ! k = Some (L + k)"
      using k old [of k] lo by (cases "k = c") (simp_all add: io)
    show "is_nonoverlap \<lparr>petsc_objects = objs, is_overlap = io, is_nonoverlap = ino,
                      subdomain_counter = int c + 1\<rparr> ! k = Some (L + k)"
      using k old [of k] ln by (cases "k = c") (simp_all add: ino)
    show "refct (petsc_objects \<lparr>petsc_objects = objs, is_overlap = io, is_nonoverlap = ino,
                      subdomain_counter = int c + 1\<rparr> ! (L + k)) = 2"
      using k old [of k] len by (cases "k = c") (simp_all add: objs nth_append)
  qed (simp_all add: objs io ino len lo ln)
qed

lemma foldM_count:
  assumes "foldM f s xs = Inr s'" "I c s"
    and "\<And>c s x s'. I c s \<Longrightarrow> x \<in> set xs \<Longrightarrow> f s x = Inr s' \<Longrightarrow> I (c + w x) s'"
  shows "I (c + sum_list (map w xs)) s'"
  using assms
proof (induction xs arbitrary: s c)
  case Nil
  then show ?case by simp
next
  case (Cons x xs)
  from Cons.prems(1) obtain s1 where s1: "f s x = Inr s1" and rest: "foldM f s1 xs = Inr s'"
    by (auto simp: bind_Inr_iff)
  have "I (c + w x) s1" by (rule Cons.prems(3) [OF Cons.prems(2) _ s1]) simp
  then have "I (c + w x + sum_list (map w xs)) s'"
    using Cons.prems(3) by (intro Cons.IH [OF rest]) auto
  then show ?case by (simp add: add.assoc)
qed

lemma intvector_max_zero:
  assumes "0 < NDIM" "\<forall>d < NDIM. v ! d = 0"
  shows "intvector_max NDIM v = 0"
proof -
  have "map (\<lambda>d. v ! d) [1..<NDIM] = replicate (NDIM - 1) 0"
    using assms(2) by (auto simp: list_eq_iff_nth_eq)
  moreover have "foldl max (0::int) (replicate n 0) = 0" for n
    by (induction n) simp_all
  ultimately show ?thesis
    using assms by (simp add: intvector_max_def)
qed

lemma asm_cell_subdomain_shared:
  "asm_cell_subdomain False dof_data obs nbs st i = Inr st' \<Longrightarrow> shared_sets L N c st
   \<Longrightarrow> shared_sets L N (c + 1) st'"
  by (auto simp: asm_cell_subdomain_def bind_Inr_iff dest: asm_index_sets_shared)

lemma asm_side_subdomain_shared:
  "asm_side_subdomain False NDIM patch t tc ub obs nbs st i = Inr st' \<Longrightarrow> shared_sets L N c st
   \<Longrightarrow> shared_sets L N (c + 1) st'"
  by (auto simp: asm_side_subdomain_def bind_Inr_iff dest: asm_index_sets_shared)

lemma shared_sets_initial:
  "shared_sets (length objects) n 0
     \<lparr>petsc_objects = objects, is_overlap = replicate n None,
      is_nonoverlap = replicate n None, subdomain_counter = 0\<rparr>"
  by (simp add: shared_sets_def)

lemma zip_map_same: "zip xs (map f xs) = map (\<lambda>x. (x, f x)) xs"
  by (induction xs) simp_all

lemma sum_list_ones: "sum_list (map (\<lambda>x. Suc 0) xs) = length xs"
  by (induction xs) simp_all

lemma asm_cell_shared:
  assumes "constructPatchLevelASMSubdomains_cell ndebug NDIM partitionPatchBox box_size
             overlap_size patches objects = Inr st"
    and "intvector_max NDIM overlap_size = 0"
  shows "shared_sets (length objects)
           (n_subdomains partitionPatchBox box_size overlap_size (CellVariable patches))
           (n_subdomains partitionPatchBox box_size overlap_size (CellVariable patches)) st"
proof -
  let ?n = "n_subdomains partitionPatchBox box_size overlap_size (CellVariable patches)"
  let ?boxes = "map (\<lambda>patch. partitionPatchBox (patch_box patch) box_size overlap_size) patches"
  have n: "sum_list (map (\<lambda>b. length (fst b)) ?boxes) = ?n"
    by (simp add: n_subdomains_def patch_boxes_def comp_def)
  have w: "sum_list (map (\<lambda>pb. length (fst (snd pb))) (zip patches ?boxes)) = ?n"
    by (simp add: zip_map_same comp_def n_subdomains_def patch_boxes_def)
  have "shared_sets (length objects) ?n
          (0 + sum_list (map (\<lambda>pb. length (fst (snd pb))) (zip patches ?boxes))) st"
    using assms(1) unfolding constructPatchLevelASMSubdomains_cell_def Let_def assms(2) n
  proof (rule foldM_count [where I = "shared_sets (length objects) ?n"])
    show "shared_sets (length objects) ?n 0
        \<lparr>petsc_objects = objects, is_overlap = replicate ?n None,
         is_nonoverlap = replicate ?n None, subdomain_counter = 0\<rparr>"
      by (rule shared_sets_initial)
  next
    fix c s pb s'
    assume I: "shared_sets (length objects) ?n c s"
      and step: "bind (TBOX_ASSERT ndebug (0 \<le> intvector_min NDIM (ghost_cell_width NDIM (fst pb))))
         (\<lambda>_. foldM (asm_cell_subdomain ((0::int) \<noteq> 0) (patch_data (fst pb)) (fst (snd pb))
                       (snd (snd pb))) s [0..<length (fst (snd pb))]) = Inr s'"
    from step have "foldM (asm_cell_subdomain False (patch_data (fst pb)) (fst (snd pb))
                       (snd (snd pb))) s [0..<length (fst (snd pb))] = Inr s'"
      by (simp add: bind_Inr_iff)
    then have "shared_sets (length objects) ?n
        (c + sum_list (map (\<lambda>x. 1) [0..<length (fst (snd pb))])) s'"
      using I by (rule foldM_count) (rule asm_cell_subdomain_shared)
    then show "shared_sets (length objects) ?n (c + length (fst (snd pb))) s'"
      by (simp add: sum_list_ones)
  qed
  then show ?thesis by (simp add: w)
qed

lemma asm_side_shared:
  assumes "constructPatchLevelASMSubdomains_side ndebug NDIM partitionPatchBox box_size
             overlap_size level_num patches objects = Inr st"
    and "intvector_max NDIM overlap_size = 0"
    and eq: "\<forall>patch \<in> set patches.
           length (snd (partitionPatchBox (patch_box patch) box_size overlap_size))
           = length (fst (partitionPatchBox (patch_box patch) box_size overlap_size))"
  shows "shared_sets (length objects)
           (n_subdomains partitionPatchBox box_size overlap_size (SideVariable level_num patches))
           (n_subdomains partitionPatchBox box_size overlap_size (SideVariable level_num patches)) st"
proof -
  let ?n = "n_subdomains partitionPatchBox box_size overlap_size (SideVariable level_num patches)"
  let ?boxes = "map (\<lambda>patch. partitionPatchBox (patch_box patch) box_size overlap_size) patches"
  have n: "sum_list (map (\<lambda>b. length (fst b)) ?boxes) = ?n"
    by (simp add: n_subdomains_def patch_boxes_def comp_def)
  have m: "map (\<lambda>patch. length (snd (partitionPatchBox (patch_box patch) box_size overlap_size))) patches
      = map (\<lambda>patch. length (fst (partitionPatchBox (patch_box patch) box_size overlap_size))) patches"
    using eq by simp
  have "sum_list (map (\<lambda>pb. length (snd (snd pb))) (zip patches ?boxes))
      = sum_list (map (\<lambda>patch. length (snd (partitionPatchBox (patch_box patch) box_size
                                               overlap_size))) patches)"
    by (simp add: zip_map_same comp_def)
  also have "\<dots> = sum_list (map (\<lambda>patch. length (fst (partitionPatchBox (patch_box patch) box_size
                                               overlap_size))) patches)"
    by (simp only: m)
  also have "\<dots> = ?n"
    by (simp add: n_subdomains_def patch_boxes_def comp_def)
  finally have w: "sum_list (map (\<lambda>pb. length (snd (snd pb))) (zip patches ?boxes)) = ?n" .
  have "shared_sets (length objects) ?n
          (0 + sum_list (map (\<lambda>pb. length (snd (snd pb))) (zip patches ?boxes))) st"
    using assms(1) unfolding constructPatchLevelASMSubdomains_side_def Let_def assms(2) n
  proof (rule foldM_count [where I = "shared_sets (length objects) ?n"])
    show "shared_sets (length objects) ?n 0
        \<lparr>petsc_objects = objects, is_overlap = replicate ?n None,
         is_nonoverlap = replicate ?n None, subdomain_counter = 0\<rparr>"
      by (rule shared_sets_initial)
  next
    fix c s pb s'
    assume I: "shared_sets (length objects) ?n c s"
      and step: "bind (TBOX_ASSERT ndebug (depth (patch_data (fst pb)) = 1))
         (\<lambda>_. bind (TBOX_ASSERT ndebug (0 \<le> intvector_min NDIM (ghost_cell_width NDIM (fst pb))))
         (\<lambda>_. bind (cf_bdry_setup NDIM (if level_num = 0 then [] else getBoundaries (fst pb)))
         (\<lambda>cf. foldM (asm_side_subdomain ((0::int) \<noteq> 0) NDIM (fst pb)
                        (length (if level_num = 0 then [] else getBoundaries (fst pb)) \<noteq> 0)
                        (fst cf) (snd cf) (fst (snd pb)) (snd (snd pb)))
                  s [0..<length (snd (snd pb))]))) = Inr s'"
    from step obtain cf where "foldM (asm_side_subdomain False NDIM (fst pb)
                        (length (if level_num = 0 then [] else getBoundaries (fst pb)) \<noteq> 0)
                        (fst cf) (snd cf) (fst (snd pb)) (snd (snd pb)))
                  s [0..<length (snd (snd pb))] = Inr s'"
      by (auto simp: bind_Inr_iff)
    then have "shared_sets (length objects) ?n
        (c + sum_list (map (\<lambda>x. 1) [0..<length (snd (snd pb))])) s'"
      using I by (rule foldM_count) (rule asm_side_subdomain_shared)
    then show "shared_sets (length objects) ?n (c + length (snd (snd pb))) s'"
      by (simp add: sum_list_ones)
  qed
  then show ?thesis by (simp add: w)
qed

lemma ISDestroy_length: "ISDestroy objects h = Inr objects' \<Longrightarrow> length objects' = length objects"
  by (auto simp: ISDestroy_def split: option.splits if_splits)

lemma foldM_ISDestroy_length:
  assumes "foldM ISDestroy objects hs = Inr objects'"
  shows "length objects' = length objects"
  using assms
  by (rule foldM_invariant [where I = "\<lambda>os. length os = length objects"])
    (simp_all add: ISDestroy_length)

text \<open>
  C7.  When the overlap size is zero and the partitioner gives every patch as many
  non-overlapping as overlapping sub-boxes, a call of the subdomain partitioner,
  volumetric or directional, that returns has sized both index-set vectors to the number
  of sub-boxes and has given every sub-box a set of its own: sub-box \<open>k\<close> has the
  \<open>k\<close>-th object created by the call, and the handle of that one object is its
  overlapping and its non-overlapping index set, the object being referenced twice.
\<close>

theorem asm_zero_overlap_shares_sets:
  assumes "constructPatchLevelASMSubdomains ndebug NDIM partitionPatchBox is_overlap0
             is_nonoverlap0 box_size overlap_size dof_index_var objects = Inr st"
    and "0 < NDIM"
    and "\<forall>d < NDIM. overlap_size ! d = 0"
    and "\<forall>b \<in> set (patch_boxes dof_index_var).
           length (snd (partitionPatchBox b box_size overlap_size))
           = length (fst (partitionPatchBox b box_size overlap_size))"
  shows "length (is_overlap st) = n_subdomains partitionPatchBox box_size overlap_size dof_index_var
       \<and> length (is_nonoverlap st)
           = n_subdomains partitionPatchBox box_size overlap_size dof_index_var
       \<and> is_overlap st = is_nonoverlap st
       \<and> (\<forall>k < n_subdomains partitionPatchBox box_size overlap_size dof_index_var.
             is_overlap st ! k = Some (length objects + k)
             \<and> is_nonoverlap st ! k = Some (length objects + k)
             \<and> length objects + k < length (petsc_objects st)
             \<and> refct (petsc_objects st ! (length objects + k)) = 2)"
proof -
  let ?n = "n_subdomains partitionPatchBox box_size overlap_size dof_index_var"
  have zero: "intvector_max NDIM overlap_size = 0"
    using assms(2,3) by (rule intvector_max_zero)
  from assms(1) obtain objects1 objects2 where
    d1: "foldM ISDestroy objects is_overlap0 = Inr objects1"
    and d2: "foldM ISDestroy objects1 is_nonoverlap0 = Inr objects2"
    and run: "(case dof_index_var of
       CellVariable patches \<Rightarrow>
         constructPatchLevelASMSubdomains_cell ndebug NDIM partitionPatchBox box_size
           overlap_size patches objects2
     | SideVariable level_num patches \<Rightarrow>
         constructPatchLevelASMSubdomains_side ndebug NDIM partitionPatchBox box_size
           overlap_size level_num patches objects2
     | OtherVariable name \<Rightarrow>
         Inl (Abort (''PETScVecUtilities::constructPatchLevelASMSubdomains(): unsupported ''
                     @ ''data centering type for variable '' @ name))) = Inr st"
    by (auto simp: constructPatchLevelASMSubdomains_def bind_Inr_iff)
  have L: "length objects2 = length objects"
    using foldM_ISDestroy_length [OF d1] foldM_ISDestroy_length [OF d2] by simp
  have S: "shared_sets (length objects) ?n ?n st"
  proof (cases dof_index_var)
    case (CellVariable patches)
    with run show ?thesis using asm_cell_shared [OF _ zero, of ndebug partitionPatchBox box_size patches objects2 st]
      by (simp add: L)
  next
    case (SideVariable level_num patches)
    with assms(4) have "\<forall>patch \<in> set patches.
           length (snd (partitionPatchBox (patch_box patch) box_size overlap_size))
           = length (fst (partitionPatchBox (patch_box patch) box_size overlap_size))"
      by (simp add: patch_boxes_def)
    with SideVariable run show ?thesis
      using asm_side_shared [OF _ zero, of ndebug partitionPatchBox box_size level_num patches objects2 st]
      by (simp add: L)
  next
    case (OtherVariable name)
    with run show ?thesis by simp
  qed
  then have len: "length (is_overlap st) = ?n" "length (is_nonoverlap st) = ?n"
    and objs: "length (petsc_objects st) = length objects + ?n"
    and each: "\<And>k. k < ?n \<Longrightarrow> is_overlap st ! k = Some (length objects + k)
           \<and> is_nonoverlap st ! k = Some (length objects + k)
           \<and> refct (petsc_objects st ! (length objects + k)) = 2"
    by (simp_all add: shared_sets_def)
  have "is_overlap st = is_nonoverlap st"
    using len each by (intro nth_equalityI) simp_all
  then show ?thesis
    using len objs each by simp
qed

lemma ex_asm_run:
  "constructPatchLevelASMSubdomains False 2 ex_partitionPatchBox [Some 0] [] [2, 2] [0, 0]
     (SideVariable 0 [ex_side_patch, ex_side_patch]) [\<lparr>refct = 1, indices = [5]\<rparr>]
   = Inr ex_asm_state"
  unfolding ex_asm_state_def by code_simp

theorem asm_zero_overlap_shares_sets_witness:
  "length (is_overlap ex_asm_state) = 2 \<and> length (is_nonoverlap ex_asm_state) = 2
   \<and> is_overlap ex_asm_state = is_nonoverlap ex_asm_state
   \<and> is_overlap ex_asm_state ! 0 = Some 1 \<and> is_nonoverlap ex_asm_state ! 0 = Some 1
   \<and> refct (petsc_objects ex_asm_state ! 1) = 2
   \<and> is_overlap ex_asm_state ! 1 = Some 2 \<and> is_nonoverlap ex_asm_state ! 1 = Some 2
   \<and> refct (petsc_objects ex_asm_state ! 2) = 2"
proof -
  have dim: "0 < (2::nat)" by simp
  have zero: "\<forall>d < 2. [0, 0 :: int] ! d = 0"
    by (simp add: less_Suc_eq numeral_2_eq_2)
  have eq: "\<forall>b \<in> set (patch_boxes (SideVariable 0 [ex_side_patch, ex_side_patch])).
           length (snd (ex_partitionPatchBox b [2, 2] [0, 0]))
           = length (fst (ex_partitionPatchBox b [2, 2] [0, 0]))"
    by (simp add: ex_partitionPatchBox_def)
  have n: "n_subdomains ex_partitionPatchBox [2, 2] [0, 0]
             (SideVariable 0 [ex_side_patch, ex_side_patch]) = 2"
    by (simp add: n_subdomains_def patch_boxes_def ex_partitionPatchBox_def)
  note t = asm_zero_overlap_shares_sets [OF ex_asm_run dim zero eq, unfolded n]
  from t have len: "length (is_overlap ex_asm_state) = 2" "length (is_nonoverlap ex_asm_state) = 2"
    "is_overlap ex_asm_state = is_nonoverlap ex_asm_state"
    by blast+
  from t have k: "is_overlap ex_asm_state ! k = Some (1 + k)
             \<and> is_nonoverlap ex_asm_state ! k = Some (1 + k)
             \<and> refct (petsc_objects ex_asm_state ! (1 + k)) = 2" if "k < 2" for k
    using that by simp
  have "is_overlap ex_asm_state ! 0 = Some 1 \<and> is_nonoverlap ex_asm_state ! 0 = Some 1
      \<and> refct (petsc_objects ex_asm_state ! 1) = 2"
    using k [of 0] by simp
  moreover have "is_overlap ex_asm_state ! 1 = Some 2 \<and> is_nonoverlap ex_asm_state ! 1 = Some 2
      \<and> refct (petsc_objects ex_asm_state ! 2) = 2"
    using k [of 1] by (simp add: numeral_2_eq_2)
  ultimately show ?thesis using len by blast
qed

section \<open>Budgets of the stencil operator\<close>

lemma row_columns_append: "row_columns (r1 @ r2) row = row_columns r1 row @ row_columns r2 row"
  by (simp add: row_columns_def)

lemma local_nonzeros_append:
  "local_nonzeros R (r1 @ r2) row = local_nonzeros R r1 row \<union> local_nonzeros R r2 row"
  by (simp add: local_nonzeros_def row_columns_append)

lemma remote_nonzeros_append:
  "remote_nonzeros R (r1 @ r2) row = remote_nonzeros R r1 row \<union> remote_nonzeros R r2 row"
  by (simp add: remote_nonzeros_def row_columns_append)

lemma finite_local_nonzeros [simp]: "finite (local_nonzeros R rows row)"
  by (simp add: local_nonzeros_def)

lemma finite_remote_nonzeros [simp]: "finite (remote_nonzeros R rows row)"
  by (simp add: remote_nonzeros_def)

lemma budget_rel_refl: "budget_rel R nnz [] nnz"
  by (simp add: budget_rel_def local_nonzeros_def remote_nonzeros_def row_columns_def)

lemma min_budget_trans:
  fixes a b c n :: int
  assumes "min n (a + int ca) \<le> b" "min n (b + int cb) \<le> c" "cab \<le> ca + cb"
  shows "min n (a + int cab) \<le> c"
  using assms by (auto simp: min_def split: if_splits)

lemma budget_rel_trans:
  assumes "budget_rel R a r1 b" "budget_rel R b r2 c"
  shows "budget_rel R a (r1 @ r2) c"
proof -
  have la: "length (fst b) = length (fst a)" "length (snd b) = length (snd a)"
    using assms(1) by (simp_all add: budget_rel_def)
  have d: "min (n_local R) (fst a ! idx
              + int (card (local_nonzeros R (r1 @ r2) (i_lower R + int idx)))) \<le> fst c ! idx"
    if "idx < length (fst a)" for idx
  proof (rule min_budget_trans)
    show "min (n_local R) (fst a ! idx + int (card (local_nonzeros R r1 (i_lower R + int idx))))
        \<le> fst b ! idx"
      using assms(1) that by (simp add: budget_rel_def)
    show "min (n_local R) (fst b ! idx + int (card (local_nonzeros R r2 (i_lower R + int idx))))
        \<le> fst c ! idx"
      using assms(2) that la by (simp add: budget_rel_def)
    show "card (local_nonzeros R (r1 @ r2) (i_lower R + int idx))
        \<le> card (local_nonzeros R r1 (i_lower R + int idx))
          + card (local_nonzeros R r2 (i_lower R + int idx))"
      by (simp add: local_nonzeros_append card_Un_le)
  qed
  have o: "min (int32 (n_total R - n_local R)) (snd a ! idx
              + int (card (remote_nonzeros R (r1 @ r2) (i_lower R + int idx)))) \<le> snd c ! idx"
    if "idx < length (snd a)" for idx
  proof (rule min_budget_trans)
    show "min (int32 (n_total R - n_local R))
            (snd a ! idx + int (card (remote_nonzeros R r1 (i_lower R + int idx))))
        \<le> snd b ! idx"
      using assms(1) that by (simp add: budget_rel_def)
    show "min (int32 (n_total R - n_local R))
            (snd b ! idx + int (card (remote_nonzeros R r2 (i_lower R + int idx))))
        \<le> snd c ! idx"
      using assms(2) that la by (simp add: budget_rel_def)
    show "card (remote_nonzeros R (r1 @ r2) (i_lower R + int idx))
        \<le> card (remote_nonzeros R r1 (i_lower R + int idx))
          + card (remote_nonzeros R r2 (i_lower R + int idx))"
      by (simp add: remote_nonzeros_append card_Un_le)
  qed
  show ?thesis
    unfolding budget_rel_def
    using assms la d o by (simp add: budget_rel_def)
qed

lemma foldM_mapM_rel:
  assumes "foldM f s xs = Inr s'" "mapM g xs = Inr rs"
    and "\<And>s x s' r. x \<in> set xs \<Longrightarrow> f s x = Inr s' \<Longrightarrow> g x = Inr r \<Longrightarrow> budget_rel R s (h r) s'"
  shows "budget_rel R s (concat (map h rs)) s'"
  using assms
proof (induction xs arbitrary: s rs)
  case Nil
  then show ?case by (simp add: budget_rel_refl)
next
  case (Cons x xs)
  from Cons.prems(1) obtain s1 where s1: "f s x = Inr s1" and rest: "foldM f s1 xs = Inr s'"
    by (auto simp: bind_Inr_iff)
  from Cons.prems(2) obtain r rs' where r: "g x = Inr r" and rs': "mapM g xs = Inr rs'"
    and rs: "rs = r # rs'"
    by (auto simp: bind_Inr_iff)
  have "budget_rel R s (h r) s1"
    by (rule Cons.prems(3) [OF _ s1 r]) simp
  moreover have "budget_rel R s1 (concat (map h rs')) s'"
  proof (rule Cons.IH [OF rest rs'])
    fix t y t' q
    assume "y \<in> set xs" "f t y = Inr t'" "g y = Inr q"
    then show "budget_rel R t (h q) t'"
      by (intro Cons.prems(3)) simp_all
  qed
  ultimately show ?case
    unfolding rs by (simp add: budget_rel_trans)
qed


lemma foldl_count_dof:
  "foldl (count_dof R) c xs
     = (fst c + int (length (filter (on_proc R) xs)),
        snd c + int (length (filter (\<lambda>x. \<not> on_proc R x) xs)))"
  by (induction xs arbitrary: c) (simp_all add: count_dof_def on_proc_def)

lemma row_columns_single:
  "row_columns [(r, cols, vals)] row = (if r = row then cols else [])"
  by (simp add: row_columns_def)

lemma card_filter_le: "card (set (filter P xs)) \<le> length (filter P xs)"
  by (rule card_length)

lemma laplace_step_rel:
  assumes cnt: "laplace_count R stencil data nnz v = Inr nnz'"
    and val: "laplace_values R stencil coefs data v = Inr r"
  shows "budget_rel R nnz r nnz'"
proof -
  obtain i d where v: "v = (i, d)" by (cases v)
  from cnt v obtain dof where dof: "cell_read data i d = Inr dof"
    by (auto simp: laplace_count_def bind_Inr_iff)
  show ?thesis
  proof (cases "i_lower R \<le> dof \<and> dof < i_upper R")
    case False
    then have "nnz' = nnz" "r = []"
      using cnt val v dof by (auto simp: laplace_count_def laplace_values_def bind_Inr_iff)
    then show ?thesis by (simp add: budget_rel_refl)
  next
    case True
    let ?li = "dof - i_lower R"
    let ?nl = "n_local R"
    let ?no = "int32 (n_total R - n_local R)"
    from cnt v dof True obtain dn on nbrs dn' on' where
      rd: "read_int (fst nnz) ?li = Inr dn" and ro: "read_int (snd nnz) ?li = Inr on"
      and nb: "mapM (\<lambda>s. cell_read data (index_add i s) d) (tl stencil) = Inr nbrs"
      and wd: "write_at (fst nnz) ?li
                 (min ?nl (fst (foldl (count_dof R) (dn + 1, on) nbrs))) = Inr dn'"
      and wo: "write_at (snd nnz) ?li
                 (min ?no (snd (foldl (count_dof R) (dn + 1, on) nbrs))) = Inr on'"
      and nnz': "nnz' = (dn', on')"
      by (auto simp: laplace_count_def Let_def bind_Inr_iff)
    from val v dof True nb obtain vals where r: "r = [(dof, dof # nbrs, vals)]"
      by (auto simp: laplace_values_def Let_def bind_Inr_iff)
    let ?k = "nat ?li"
    from read_int_Inr [OF rd] have k: "?k < length (fst nnz)" and dn: "dn = fst nnz ! ?k"
      by auto
    from read_int_Inr [OF ro] have ko: "?k < length (snd nnz)" and on: "on = snd nnz ! ?k"
      by auto
    from write_at_Inr [OF wd]
    have dn': "dn' = (fst nnz)[?k := min ?nl (dn + 1 + int (length (filter (on_proc R) nbrs)))]"
      by (simp add: foldl_count_dof)
    from write_at_Inr [OF wo]
    have on': "on' = (snd nnz)[?k := min ?no (on + int (length (filter (\<lambda>x. \<not> on_proc R x) nbrs)))]"
      by (simp add: foldl_count_dof)
    have row: "i_lower R + int idx = dof \<longleftrightarrow> idx = ?k" for idx
      using True by auto
    have onp: "on_proc R dof" using True by (simp add: on_proc_def)
    have L: "card (local_nonzeros R r dof) \<le> 1 + length (filter (on_proc R) nbrs)"
      using card_filter_le [of "on_proc R" "dof # nbrs"] onp
      by (simp add: local_nonzeros_def r row_columns_single)
    have "card (remote_nonzeros R r dof)
        \<le> length (filter (\<lambda>c. 0 \<le> c \<and> c < n_total R \<and> \<not> on_proc R c) nbrs)"
      using card_filter_le [of "\<lambda>c. 0 \<le> c \<and> c < n_total R \<and> \<not> on_proc R c" "dof # nbrs"] onp
      by (simp add: remote_nonzeros_def r row_columns_single)
    also have "\<dots> \<le> length (filter (\<lambda>x. \<not> on_proc R x) nbrs)"
    proof -
      have "filter (\<lambda>c. 0 \<le> c \<and> c < n_total R \<and> \<not> on_proc R c) nbrs
          = filter (\<lambda>c. 0 \<le> c \<and> c < n_total R) (filter (\<lambda>x. \<not> on_proc R x) nbrs)"
        by (induction nbrs) auto
      then show ?thesis by (metis length_filter_le)
    qed
    finally have O: "card (remote_nonzeros R r dof)
        \<le> length (filter (\<lambda>x. \<not> on_proc R x) nbrs)" .
    have Lother: "local_nonzeros R r (i_lower R + int idx) = {}" if "idx \<noteq> ?k" for idx
      using that row [of idx] by (simp add: local_nonzeros_def r row_columns_single)
    have Oother: "remote_nonzeros R r (i_lower R + int idx) = {}" if "idx \<noteq> ?k" for idx
      using that row [of idx] by (simp add: remote_nonzeros_def r row_columns_single)
    have Lk: "i_lower R + int ?k = dof" using True by simp
    show ?thesis
      unfolding budget_rel_def nnz' fst_conv snd_conv
    proof (intro conjI allI impI)
      show "length dn' = length (fst nnz)" by (simp add: dn')
      show "length on' = length (snd nnz)" by (simp add: on')
    next
      fix idx assume idx: "idx < length (fst nnz)"
      show "min ?nl (fst nnz ! idx + int (card (local_nonzeros R r (i_lower R + int idx))))
          \<le> dn' ! idx"
      proof (cases "idx = ?k")
        case True
        have "dn' ! idx = min ?nl (dn + 1 + int (length (filter (on_proc R) nbrs)))"
          using k True by (simp add: dn')
        moreover have "int (card (local_nonzeros R r (i_lower R + int idx)))
            \<le> 1 + int (length (filter (on_proc R) nbrs))"
          using L Lk True by simp
        moreover have "fst nnz ! idx = dn" using dn True by simp
        ultimately show ?thesis by linarith
      next
        case False
        then show ?thesis using idx by (simp add: dn' Lother)
      qed
    next
      fix idx assume idx: "idx < length (snd nnz)"
      show "min ?no (snd nnz ! idx + int (card (remote_nonzeros R r (i_lower R + int idx))))
          \<le> on' ! idx"
      proof (cases "idx = ?k")
        case True
        have "on' ! idx = min ?no (on + int (length (filter (\<lambda>x. \<not> on_proc R x) nbrs)))"
          using ko True by (simp add: on')
        moreover have "int (card (remote_nonzeros R r (i_lower R + int idx)))
            \<le> int (length (filter (\<lambda>x. \<not> on_proc R x) nbrs))"
          using O Lk True by simp
        moreover have "snd nnz ! idx = on" using on True by simp
        ultimately show ?thesis by linarith
      next
        case False
        then show ?thesis using idx by (simp add: on' Oother)
      qed
    next
      fix idx
      assume "\<forall>idx < length (fst nnz). fst nnz ! idx \<le> ?nl" and "idx < length (fst nnz)"
      then show "dn' ! idx \<le> ?nl"
        by (cases "idx = ?k") (simp_all add: dn')
    next
      fix idx
      assume "\<forall>idx < length (snd nnz). snd nnz ! idx \<le> ?no" and "idx < length (snd nnz)"
      then show "on' ! idx \<le> ?no"
        by (cases "idx = ?k") (simp_all add: on')
    qed
  qed
qed


lemma laplace_patch_rel:
  assumes "foldM (\<lambda>nnz i. foldM (\<lambda>nnz d. laplace_count R stencil data nnz (i, d)) nnz ds)
             nnz cells = Inr nnz'"
    and "mapM (\<lambda>i. mapM (\<lambda>d. laplace_values R stencil coefs data (i, d)) ds) cells = Inr rs"
  shows "budget_rel R nnz (concat (map concat rs)) nnz'"
  using assms
proof (rule foldM_mapM_rel)
  fix s i s' r
  assume "foldM (\<lambda>nnz d. laplace_count R stencil data nnz (i, d)) s ds = Inr s'"
    and "mapM (\<lambda>d. laplace_values R stencil coefs data (i, d)) ds = Inr r"
  then have "budget_rel R s (concat (map (\<lambda>x. x) r)) s'"
    by (rule foldM_mapM_rel) (rule laplace_step_rel)
  then show "budget_rel R s (concat r) s'" by simp
qed

lemma laplace_level_rel:
  fixes patches :: "(Index \<Rightarrow> nat \<Rightarrow> int) Patch list"
  assumes "foldM (\<lambda>nnz patch.
              bind (TBOX_ASSERT ndebug (bc = depth (patch_data patch))) (\<lambda>_.
              foldM (\<lambda>nnz i.
                 foldM (\<lambda>nnz d. laplace_count R stencil (patch_data patch) nnz (i, d))
                       nnz [0..<bc])
                nnz (box_iterator (patch_box patch))))
            nnz patches = Inr nnz'"
    and "mapM (\<lambda>patch.
              mapM (\<lambda>i.
                 mapM (\<lambda>d. laplace_values R stencil (coefs patch) (patch_data patch) (i, d))
                      [0..<bc])
                (box_iterator (patch_box patch)))
            patches = Inr rows"
  shows "budget_rel R nnz (concat (concat (concat rows))) nnz'"
proof -
  have "budget_rel R nnz (concat (map (\<lambda>r. concat (map concat r)) rows)) nnz'"
    using assms
  proof (rule foldM_mapM_rel)
    fix s s' r and patch :: "(Index \<Rightarrow> nat \<Rightarrow> int) Patch"
    assume "bind (TBOX_ASSERT ndebug (bc = depth (patch_data patch))) (\<lambda>_.
              foldM (\<lambda>nnz i.
                 foldM (\<lambda>nnz d. laplace_count R stencil (patch_data patch) nnz (i, d))
                       nnz [0..<bc])
                s (box_iterator (patch_box patch))) = Inr s'"
    then have "foldM (\<lambda>nnz i.
                 foldM (\<lambda>nnz d. laplace_count R stencil (patch_data patch) nnz (i, d))
                       nnz [0..<bc])
                s (box_iterator (patch_box patch)) = Inr s'"
      by (simp add: bind_Inr_iff)
    moreover assume "mapM (\<lambda>i.
                 mapM (\<lambda>d. laplace_values R stencil (coefs patch) (patch_data patch) (i, d))
                      [0..<bc])
                (box_iterator (patch_box patch)) = Inr r"
    ultimately show "budget_rel R s (concat (map concat r)) s'"
      by (rule laplace_patch_rel)
  qed
  then show ?thesis by (simp only: concat_map_concat_concat)
qed

lemma length_laplace_stencil: "length (laplace_stencil NDIM) = 2 * NDIM + 1"
  by (simp add: laplace_stencil_def length_concat comp_def sum_list_triv)

lemma index_add_unit:
  assumes "length i = NDIM" "axis < NDIM"
  shows "index_add i ((replicate NDIM 0)[axis := c]) = i[axis := i ! axis + c]"
  using assms by (intro nth_equalityI) (auto simp: index_add_def nth_list_update)

lemma neighbour_cells_stencil:
  assumes "length i = NDIM"
  shows "map (index_add i) (tl (laplace_stencil NDIM)) = neighbour_cells NDIM i"
proof -
  have eq: "map (\<lambda>axis. [index_add i ((replicate NDIM 0)[axis := - 1]),
                     index_add i ((replicate NDIM 0)[axis := 1])]) [0..<NDIM]
      = map (\<lambda>axis. [i[axis := i ! axis - 1], i[axis := i ! axis + 1]]) [0..<NDIM]"
    using assms by (intro map_cong refl) (simp add: index_add_unit)
  have "map (index_add i) (tl (laplace_stencil NDIM))
      = concat (map (\<lambda>axis. [index_add i ((replicate NDIM 0)[axis := - 1]),
                     index_add i ((replicate NDIM 0)[axis := 1])]) [0..<NDIM])"
    by (simp add: laplace_stencil_def map_concat comp_def)
  also have "\<dots> = concat (map (\<lambda>axis. [i[axis := i ! axis - 1], i[axis := i ! axis + 1]])
                           [0..<NDIM])"
    by (simp only: eq)
  finally show ?thesis by (simp add: neighbour_cells_def)
qed

lemma laplace_values_Inr:
  assumes "laplace_values R (laplace_stencil NDIM) coefs data (i, d) = Inr r" "length i = NDIM"
  shows "r = (if on_proc R (array data i d) then
                [(array data i d,
                  array data i d # map (\<lambda>j. array data j d) (neighbour_cells NDIM i),
                  map (\<lambda>k. coefs i (d * (2 * NDIM + 1) + k)) [0..<2 * NDIM + 1])]
              else [])"
proof -
  from assms(1) obtain dof where dof: "cell_read data i d = Inr dof"
    by (auto simp: laplace_values_def bind_Inr_iff)
  then have dofv: "dof = array data i d" by (rule cell_read_Inr)
  show ?thesis
  proof (cases "on_proc R dof")
    case False
    then show ?thesis
      using assms(1) dof dofv by (auto simp: laplace_values_def bind_Inr_iff on_proc_def)
  next
    case True
    with assms(1) dof obtain nbrs where
      nb: "mapM (\<lambda>s. cell_read data (index_add i s) d) (tl (laplace_stencil NDIM)) = Inr nbrs"
      and r: "r = [(dof, dof # nbrs,
                 map (\<lambda>stencil_index. coefs i (d * length (laplace_stencil NDIM) + stencil_index))
                     [0..<length (laplace_stencil NDIM)])]"
      by (auto simp: laplace_values_def Let_def bind_Inr_iff on_proc_def)
    have "nbrs = map (\<lambda>s. array data (index_add i s) d) (tl (laplace_stencil NDIM))"
      using nb by (rule mapM_Inr_eq) (rule cell_read_Inr)
    also have "\<dots> = map (\<lambda>j. array data j d) (map (index_add i) (tl (laplace_stencil NDIM)))"
      by (simp add: comp_def)
    finally have "nbrs = map (\<lambda>j. array data j d) (neighbour_cells NDIM i)"
      by (simp only: neighbour_cells_stencil [OF assms(2)])
    then show ?thesis
      using True r dofv by (simp add: length_laplace_stencil)
  qed
qed


lemma laplace_rows:
  fixes patches :: "(Index \<Rightarrow> nat \<Rightarrow> int) Patch list"
  assumes rows: "mapM (\<lambda>patch.
              mapM (\<lambda>i.
                 mapM (\<lambda>d. laplace_values R (laplace_stencil NDIM)
                              (coefs patch (laplace_stencil NDIM)) (patch_data patch) (i, d))
                      [0..<bc])
                (box_iterator (patch_box patch)))
            patches = Inr rows"
    and dims: "\<forall>patch \<in> set patches. length (lower (patch_box patch)) = NDIM"
  shows "concat (concat (concat rows))
       = concat (map (stencil_row R NDIM coefs patches) (cell_locations bc patches))"
proof -
  let ?row = "\<lambda>(patch :: (Index \<Rightarrow> nat \<Rightarrow> int) Patch) i d.
      (if on_proc R (array (patch_data patch) i d) then
         [(array (patch_data patch) i d,
           array (patch_data patch) i d
             # map (\<lambda>j. array (patch_data patch) j d) (neighbour_cells NDIM i),
           map (\<lambda>k. coefs patch (laplace_stencil NDIM) i (d * (2 * NDIM + 1) + k))
               [0..<2 * NDIM + 1])]
       else [])"
  let ?g = "\<lambda>patch :: (Index \<Rightarrow> nat \<Rightarrow> int) Patch.
      map (\<lambda>i. map (\<lambda>d. ?row patch i d) [0..<bc]) (box_iterator (patch_box patch))"
  have "rows = map ?g patches"
    using rows
  proof (rule mapM_Inr_eq)
    fix patch :: "(Index \<Rightarrow> nat \<Rightarrow> int) Patch" and y
    assume patch: "patch \<in> set patches"
      and y: "mapM (\<lambda>i. mapM (\<lambda>d. laplace_values R (laplace_stencil NDIM)
                              (coefs patch (laplace_stencil NDIM)) (patch_data patch) (i, d))
                      [0..<bc]) (box_iterator (patch_box patch)) = Inr y"
    show "y = ?g patch"
      using y
    proof (rule mapM_Inr_eq)
      fix i z
      assume i: "i \<in> set (box_iterator (patch_box patch))"
        and z: "mapM (\<lambda>d. laplace_values R (laplace_stencil NDIM)
                              (coefs patch (laplace_stencil NDIM)) (patch_data patch) (i, d))
                      [0..<bc] = Inr z"
      have len: "length i = NDIM"
        using i dims patch length_box_indices [of i "lower (patch_box patch)" "upper (patch_box patch)"]
        by (simp add: box_iterator_def)
      show "z = map (\<lambda>d. ?row patch i d) [0..<bc]"
        using z by (rule mapM_Inr_eq) (rule laplace_values_Inr [OF _ len])
    qed
  qed
  then have "concat (concat (concat rows))
      = concat (map (\<lambda>patch. concat (map (\<lambda>i. concat (map (\<lambda>d. ?row patch i d) [0..<bc]))
                                           (box_iterator (patch_box patch)))) patches)"
    by (simp add: concat_map_concat_concat [symmetric] comp_def)
  also have "\<dots> = concat (map (\<lambda>p. concat (map (\<lambda>i. concat (map (\<lambda>d. ?row (patches ! p) i d) [0..<bc]))
                                           (box_iterator (patch_box (patches ! p)))))
                               [0..<length patches])"
    using map_by_index [where xs = patches and f = "\<lambda>patch. concat (map (\<lambda>i. concat (map (\<lambda>d. ?row patch i d) [0..<bc]))
                                           (box_iterator (patch_box patch)))"]
    by simp
  also have "\<dots> = concat (map (stencil_row R NDIM coefs patches) (cell_locations bc patches))"
    by (simp add: cell_locations_def concat_map_over_concat comp_def stencil_row_def Let_def)
  finally show ?thesis .
qed


lemma foldM_mapM_exact:
  assumes "foldM f s xs = Inr s'" "mapM g xs = Inr rs"
    and "\<And>s x s' r. x \<in> set xs \<Longrightarrow> f s x = Inr s' \<Longrightarrow> g x = Inr r \<Longrightarrow> s' = foldl D s (h r)"
  shows "s' = foldl D s (concat (map h rs))"
  using assms
proof (induction xs arbitrary: s rs)
  case Nil
  then show ?case by simp
next
  case (Cons x xs)
  from Cons.prems(1) obtain s1 where s1: "f s x = Inr s1" and rest: "foldM f s1 xs = Inr s'"
    by (auto simp: bind_Inr_iff)
  from Cons.prems(2) obtain r rs' where r: "g x = Inr r" and rs': "mapM g xs = Inr rs'"
    and rs: "rs = r # rs'"
    by (auto simp: bind_Inr_iff)
  have "s1 = foldl D s (h r)"
    by (rule Cons.prems(3) [OF _ s1 r]) simp
  moreover have "s' = foldl D s1 (concat (map h rs'))"
  proof (rule Cons.IH [OF rest rs'])
    fix t y t' q
    assume "y \<in> set xs" "f t y = Inr t'" "g y = Inr q"
    then show "t' = foldl D t (h q)"
      by (intro Cons.prems(3)) simp_all
  qed
  ultimately show ?case
    unfolding rs by simp
qed

lemma laplace_step_exact:
  assumes cnt: "laplace_count R stencil data nnz v = Inr nnz'"
    and val: "laplace_values R stencil coefs data v = Inr r"
    and clamp: "int32 (n_total R - n_local R) = n_total R - n_local R"
  shows "nnz' = foldl (declare_row R) nnz r"
proof -
  obtain i d where v: "v = (i, d)" by (cases v)
  from cnt v obtain dof where dof: "cell_read data i d = Inr dof"
    by (auto simp: laplace_count_def bind_Inr_iff)
  show ?thesis
  proof (cases "i_lower R \<le> dof \<and> dof < i_upper R")
    case False
    then have "nnz' = nnz" "r = []"
      using cnt val v dof by (auto simp: laplace_count_def laplace_values_def bind_Inr_iff)
    then show ?thesis by simp
  next
    case True
    let ?li = "dof - i_lower R"
    let ?nl = "n_local R"
    let ?no = "n_total R - n_local R"
    from cnt v dof True obtain dn on nbrs dn' on' where
      rd: "read_int (fst nnz) ?li = Inr dn" and ro: "read_int (snd nnz) ?li = Inr on"
      and nb: "mapM (\<lambda>s. cell_read data (index_add i s) d) (tl stencil) = Inr nbrs"
      and wd: "write_at (fst nnz) ?li
                 (min ?nl (fst (foldl (count_dof R) (dn + 1, on) nbrs))) = Inr dn'"
      and wo: "write_at (snd nnz) ?li
                 (min ?no (snd (foldl (count_dof R) (dn + 1, on) nbrs))) = Inr on'"
      and nnz': "nnz' = (dn', on')"
      by (auto simp: laplace_count_def Let_def bind_Inr_iff clamp)
    from val v dof True nb obtain vals where r: "r = [(dof, dof # nbrs, vals)]"
      by (auto simp: laplace_values_def Let_def bind_Inr_iff)
    let ?k = "nat ?li"
    from read_int_Inr [OF rd] have dn: "dn = fst nnz ! ?k" by auto
    from read_int_Inr [OF ro] have on: "on = snd nnz ! ?k" by auto
    from write_at_Inr [OF wd]
    have dn': "dn' = (fst nnz)[?k := min ?nl (dn + 1 + int (length (filter (on_proc R) nbrs)))]"
      by (simp add: foldl_count_dof)
    from write_at_Inr [OF wo]
    have on': "on' = (snd nnz)[?k := min ?no (on + int (length (filter (\<lambda>x. \<not> on_proc R x) nbrs)))]"
      by (simp add: foldl_count_dof)
    show ?thesis
      unfolding r nnz' dn' on' dn on by (simp add: declare_row_def Let_def)
  qed
qed

lemma laplace_level_exact:
  fixes patches :: "(Index \<Rightarrow> nat \<Rightarrow> int) Patch list"
  assumes "foldM (\<lambda>nnz patch.
              bind (TBOX_ASSERT ndebug (bc = depth (patch_data patch))) (\<lambda>_.
              foldM (\<lambda>nnz i.
                 foldM (\<lambda>nnz d. laplace_count R stencil (patch_data patch) nnz (i, d))
                       nnz [0..<bc])
                nnz (box_iterator (patch_box patch))))
            nnz patches = Inr nnz'"
    and "mapM (\<lambda>patch.
              mapM (\<lambda>i.
                 mapM (\<lambda>d. laplace_values R stencil (coefs patch) (patch_data patch) (i, d))
                      [0..<bc])
                (box_iterator (patch_box patch)))
            patches = Inr rows"
    and clamp: "int32 (n_total R - n_local R) = n_total R - n_local R"
  shows "nnz' = foldl (declare_row R) nnz (concat (concat (concat rows)))"
proof -
  have "nnz' = foldl (declare_row R) nnz (concat (map (\<lambda>r. concat (map concat r)) rows))"
    using assms(1,2)
  proof (rule foldM_mapM_exact)
    fix s s' r and patch :: "(Index \<Rightarrow> nat \<Rightarrow> int) Patch"
    assume "bind (TBOX_ASSERT ndebug (bc = depth (patch_data patch))) (\<lambda>_.
              foldM (\<lambda>nnz i.
                 foldM (\<lambda>nnz d. laplace_count R stencil (patch_data patch) nnz (i, d))
                       nnz [0..<bc])
                s (box_iterator (patch_box patch))) = Inr s'"
    then have c: "foldM (\<lambda>nnz i.
                 foldM (\<lambda>nnz d. laplace_count R stencil (patch_data patch) nnz (i, d))
                       nnz [0..<bc])
                s (box_iterator (patch_box patch)) = Inr s'"
      by (simp add: bind_Inr_iff)
    assume v: "mapM (\<lambda>i.
                 mapM (\<lambda>d. laplace_values R stencil (coefs patch) (patch_data patch) (i, d))
                      [0..<bc])
                (box_iterator (patch_box patch)) = Inr r"
    show "s' = foldl (declare_row R) s (concat (map concat r))"
      using c v
    proof (rule foldM_mapM_exact)
      fix t i t' q
      assume "foldM (\<lambda>nnz d. laplace_count R stencil (patch_data patch) nnz (i, d)) t [0..<bc]
                = Inr t'"
        and "mapM (\<lambda>d. laplace_values R stencil (coefs patch) (patch_data patch) (i, d)) [0..<bc]
                = Inr q"
      then have "t' = foldl (declare_row R) t (concat (map (\<lambda>x. x) q))"
        by (rule foldM_mapM_exact) (rule laplace_step_exact [OF _ _ clamp])
      then show "t' = foldl (declare_row R) t (concat q)" by simp
    qed
  qed
  then show ?thesis by (simp only: concat_map_concat_concat)
qed

lemma length_declare_row:
  "length (fst (declare_row R nnz e)) = length (fst nnz)"
  "length (snd (declare_row R nnz e)) = length (snd nnz)"
  by (simp_all add: declare_row_def Let_def split: prod.splits)

lemma length_foldl_declare_row:
  "length (fst (foldl (declare_row R) nnz rows)) = length (fst nnz)
   \<and> length (snd (foldl (declare_row R) nnz rows)) = length (snd nnz)"
  by (induction rows arbitrary: nnz) (simp_all add: length_declare_row)

lemma declare_row_other:
  assumes "i_lower R \<le> fst e" "i_lower R \<le> row" "fst e \<noteq> row"
  shows "fst (declare_row R nnz e) ! nat (row - i_lower R) = fst nnz ! nat (row - i_lower R)"
    and "snd (declare_row R nnz e) ! nat (row - i_lower R) = snd nnz ! nat (row - i_lower R)"
proof -
  have "nat (fst e - i_lower R) \<noteq> nat (row - i_lower R)"
    using assms by auto
  then show "fst (declare_row R nnz e) ! nat (row - i_lower R) = fst nnz ! nat (row - i_lower R)"
    and "snd (declare_row R nnz e) ! nat (row - i_lower R) = snd nnz ! nat (row - i_lower R)"
    by (auto simp: declare_row_def Let_def split: prod.splits)
qed

lemma foldl_declare_row_other:
  assumes "\<forall>e \<in> set rows. i_lower R \<le> fst e \<and> fst e \<noteq> row" "i_lower R \<le> row"
  shows "fst (foldl (declare_row R) nnz rows) ! nat (row - i_lower R)
           = fst nnz ! nat (row - i_lower R)
       \<and> snd (foldl (declare_row R) nnz rows) ! nat (row - i_lower R)
           = snd nnz ! nat (row - i_lower R)"
  using assms(1)
proof (induction rows arbitrary: nnz)
  case Nil
  then show ?case by simp
next
  case (Cons e rows)
  then have e: "i_lower R \<le> fst e" "fst e \<noteq> row" by simp_all
  show ?case
    using Cons.IH [of "declare_row R nnz e"] Cons.prems
      declare_row_other [OF e(1) assms(2) e(2), of nnz]
    by simp
qed

lemma foldl_declare_row_once:
  assumes "filter (\<lambda>e. fst e = row) rows = [(row, cols, vals)]"
    and "\<forall>e \<in> set rows. i_lower R \<le> fst e"
    and "i_lower R \<le> row"
    and "nat (row - i_lower R) < length (fst nnz)" "nat (row - i_lower R) < length (snd nnz)"
  shows "fst (foldl (declare_row R) nnz rows) ! nat (row - i_lower R)
           = min (n_local R) (fst nnz ! nat (row - i_lower R) + 1
                                + int (length (filter (on_proc R) (tl cols))))
       \<and> snd (foldl (declare_row R) nnz rows) ! nat (row - i_lower R)
           = min (n_total R - n_local R)
                 (snd nnz ! nat (row - i_lower R)
                    + int (length (filter (\<lambda>c. \<not> on_proc R c) (tl cols))))"
  using assms(1,2,4,5)
proof (induction rows arbitrary: nnz)
  case Nil
  then show ?case by simp
next
  case (Cons e rows)
  let ?k = "nat (row - i_lower R)"
  show ?case
  proof (cases "fst e = row")
    case True
    with Cons.prems(1) have e: "e = (row, cols, vals)" and none: "filter (\<lambda>e. fst e = row) rows = []"
      by simp_all
    from none have "\<forall>e \<in> set rows. fst e \<noteq> row"
      by (simp add: filter_empty_conv)
    then have other: "\<forall>e \<in> set rows. i_lower R \<le> fst e \<and> fst e \<noteq> row"
      using Cons.prems(2) by simp
    have "fst (declare_row R nnz e) ! ?k
            = min (n_local R) (fst nnz ! ?k + 1 + int (length (filter (on_proc R) (tl cols))))"
      and "snd (declare_row R nnz e) ! ?k
            = min (n_total R - n_local R)
                 (snd nnz ! ?k + int (length (filter (\<lambda>c. \<not> on_proc R c) (tl cols))))"
      using Cons.prems(3,4) by (simp_all add: e declare_row_def Let_def)
    then show ?thesis
      using foldl_declare_row_other [OF other assms(3), of "declare_row R nnz e"] by simp
  next
    case False
    with Cons.prems(1) have f: "filter (\<lambda>e. fst e = row) rows = [(row, cols, vals)]" by simp
    have e: "i_lower R \<le> fst e" using Cons.prems(2) by simp
    have "fst (foldl (declare_row R) (declare_row R nnz e) rows) ! ?k
           = min (n_local R) (fst (declare_row R nnz e) ! ?k + 1
                                + int (length (filter (on_proc R) (tl cols))))
       \<and> snd (foldl (declare_row R) (declare_row R nnz e) rows) ! ?k
           = min (n_total R - n_local R)
                 (snd (declare_row R nnz e) ! ?k
                    + int (length (filter (\<lambda>c. \<not> on_proc R c) (tl cols))))"
      using Cons.prems by (intro Cons.IH [OF f]) (simp_all add: length_declare_row)
    then show ?thesis
      using declare_row_other [OF e assms(3) False, of nnz] by simp
  qed
qed


lemma stencil_row_mem:
  assumes "e \<in> set (stencil_row R NDIM coefs patches loc)"
  shows "on_proc R (fst e)"
  using assms by (auto simp: stencil_row_def Let_def split: prod.splits if_splits)

lemma index_ranges_nested:
  assumes "determine_index_ranges cs r = Inr R" "\<forall>c \<in> set cs. 0 \<le> c" "sum_list cs < 2 ^ 31"
  shows "0 \<le> i_lower R" "i_upper R \<le> n_total R" "0 \<le> n_local R" "n_total R < 2 ^ 31"
proof -
  note R = determine_index_ranges_Inr [OF assms]
  show "0 \<le> i_lower R"
    unfolding R(3) using assms(2) by (intro sum_list_nonneg) (meson in_set_takeD)
  have "sum_list (take (Suc r) cs) \<le> sum_list cs"
    by (rule sum_list_take_le [OF assms(2)])
  moreover have "sum_list (take (Suc r) cs) = sum_list (take r cs) + cs ! r"
    using R(1) by (simp add: take_Suc_conv_app_nth)
  ultimately show "i_upper R \<le> n_total R"
    by (simp add: R)
  show "0 \<le> n_local R"
    unfolding R(2) using assms(2) R(1) by simp
  show "n_total R < 2 ^ 31"
    unfolding R(5) by (rule assms(3))
qed

lemma card_local_nonzeros:
  "int (card (local_nonzeros R rows row)) \<le> max 0 (n_local R)" if "i_upper R = i_lower R + n_local R"
proof -
  have "local_nonzeros R rows row \<subseteq> {i_lower R ..< i_upper R}"
    by (auto simp: local_nonzeros_def on_proc_def)
  then have "card (local_nonzeros R rows row) \<le> card {i_lower R ..< i_upper R}"
    by (intro card_mono) simp_all
  then show ?thesis using that by simp
qed

lemma card_remote_nonzeros:
  assumes "0 \<le> i_lower R" "i_upper R \<le> n_total R" "i_upper R = i_lower R + n_local R"
    "0 \<le> n_local R"
  shows "int (card (remote_nonzeros R rows row)) \<le> n_total R - n_local R"
proof -
  have "remote_nonzeros R rows row \<subseteq> {0 ..< i_lower R} \<union> {i_upper R ..< n_total R}"
    by (auto simp: remote_nonzeros_def on_proc_def)
  then have "card (remote_nonzeros R rows row) \<le> card ({0 ..< i_lower R} \<union> {i_upper R ..< n_total R})"
    by (intro card_mono) simp_all
  also have "\<dots> \<le> card {0 ..< i_lower R} + card {i_upper R ..< n_total R}"
    by (rule card_Un_le)
  finally show ?thesis using assms by simp
qed

text \<open>
  The claim of C2 fails where the total DOF count leaves the range of an \<open>int\<close>.  With
  the counts 1, 2147483647 and 1, process 0 owns DOF 0 alone; the sum wraps, \<open>n_total\<close>
  becomes -2147483647 and the clamp \<open>n_total - n_local\<close> becomes -2147483648.  The row
  of DOF 0 gets the columns 1 and 3 of other processes, and a remote budget of
  -2147483648.
\<close>

theorem laplace_budget_overflow:
  "constructPatchLevelCCLaplaceOp False 2 0 ex_coefficients 1 [1, 2147483647, 1] [ex_laplace_patch]
   = Inr \<lparr>d_nnz = [1], o_nnz = [- 2147483648],
          mat_rows = [(0, [0, - 1, 1, - 1, 3], [4, - 1, - 1, - 1, - 1])]\<rparr>"
  by code_simp

text \<open>
  C2, as amended.  For non-negative per-process DOF counts whose total is at most
  \<open>2^31 - 1\<close>, and patch boxes of NDIM coordinates: the value phase inserts, for every
  location with an owned DOF and in loop order, one row with the DOF indices of the
  centre and of its \<open>2 * NDIM\<close> neighbours as columns; the count phase leaves in
  \<open>d_nnz\<close> and \<open>o_nnz\<close> what the counting rule gives when applied to the inserted rows
  in order.  For a row that is inserted once the budgets are: the centre plus the
  neighbours with an owned DOF index, clamped to the number of rows of the process, and
  the other neighbours, clamped to the total minus the number of rows of the process.
  For every row the process owns, the local budget is at most the number of rows of the
  process and at least the number of local nonzeros the value phase inserts into the row,
  and the remote budget is at most the number of remote columns and at least the number
  of remote nonzeros inserted: the allocation made from the budgets holds every inserted
  nonzero.
\<close>

theorem laplace_budgets_suffice:
  assumes "constructPatchLevelCCLaplaceOp ndebug NDIM mpi_rank computeMatrixCoefficients
             bc_coefs_size num_dofs_per_proc patches = Inr A"
    and "\<forall>c \<in> set num_dofs_per_proc. 0 \<le> c"
    and "sum_list num_dofs_per_proc < 2 ^ 31"
    and "determine_index_ranges num_dofs_per_proc mpi_rank = Inr R"
    and "\<forall>patch \<in> set patches. length (lower (patch_box patch)) = NDIM"
    and "i_lower R \<le> row" and "row < i_upper R"
  shows "mat_rows A = concat (map (stencil_row R NDIM computeMatrixCoefficients patches)
                                  (cell_locations bc_coefs_size patches))
       \<and> (d_nnz A, o_nnz A)
           = foldl (declare_row R)
               (replicate (nat (n_local R)) 0, replicate (nat (n_local R)) 0) (mat_rows A)
       \<and> (\<forall>cols vals. filter (\<lambda>e. fst e = row) (mat_rows A) = [(row, cols, vals)] \<longrightarrow>
            d_nnz A ! nat (row - i_lower R)
              = min (n_local R) (1 + int (length (filter (on_proc R) (tl cols))))
          \<and> o_nnz A ! nat (row - i_lower R)
              = min (n_total R - n_local R)
                    (int (length (filter (\<lambda>c. \<not> on_proc R c) (tl cols)))))
       \<and> int (card (local_nonzeros R (mat_rows A) row)) \<le> d_nnz A ! nat (row - i_lower R)
       \<and> d_nnz A ! nat (row - i_lower R) \<le> n_local R
       \<and> int (card (remote_nonzeros R (mat_rows A) row)) \<le> o_nnz A ! nat (row - i_lower R)
       \<and> o_nnz A ! nat (row - i_lower R) \<le> n_total R - n_local R"
proof -
  note Rf = determine_index_ranges_Inr [OF assms(4,2,3)]
  note nest = index_ranges_nested [OF assms(4,2,3)]
  have clamp: "int32 (n_total R - n_local R) = n_total R - n_local R"
    using nest Rf(4) by (intro int32_eq) simp_all
  let ?z = "replicate (nat (n_local R)) (0::int)"
  from assms(1) assms(4) obtain nnz rows where
    cnt: "foldM (\<lambda>nnz patch.
              bind (TBOX_ASSERT ndebug (bc_coefs_size = depth (patch_data patch))) (\<lambda>_.
              foldM (\<lambda>nnz i.
                 foldM (\<lambda>nnz d. laplace_count R (laplace_stencil NDIM) (patch_data patch) nnz (i, d))
                       nnz [0..<bc_coefs_size])
                nnz (box_iterator (patch_box patch))))
            (?z, ?z) patches = Inr nnz"
    and val: "mapM (\<lambda>patch.
              mapM (\<lambda>i.
                 mapM (\<lambda>d. laplace_values R (laplace_stencil NDIM)
                              (computeMatrixCoefficients patch (laplace_stencil NDIM))
                              (patch_data patch) (i, d))
                      [0..<bc_coefs_size])
                (box_iterator (patch_box patch)))
            patches = Inr rows"
    and A: "d_nnz A = fst nnz" "o_nnz A = snd nnz" "mat_rows A = concat (concat (concat rows))"
    by (auto simp: constructPatchLevelCCLaplaceOp_def Let_def bind_Inr_iff new_vector_def
        split: if_splits)
  have rows_eq: "mat_rows A = concat (map (stencil_row R NDIM computeMatrixCoefficients patches)
                                  (cell_locations bc_coefs_size patches))"
    unfolding A(3) using val assms(5) by (rule laplace_rows)
  have exact: "nnz = foldl (declare_row R) (?z, ?z) (mat_rows A)"
    unfolding A(3) using cnt val clamp by (rule laplace_level_exact)
  have rel: "budget_rel R (?z, ?z) (mat_rows A) nnz"
    unfolding A(3) using cnt val by (rule laplace_level_rel)
  let ?k = "nat (row - i_lower R)"
  have k: "?k < nat (n_local R)" using assms(6,7) Rf(4) by simp
  have rowk: "i_lower R + int ?k = row" using assms(6) by simp
  have owned: "\<forall>e \<in> set (mat_rows A). i_lower R \<le> fst e"
    unfolding rows_eq by (auto dest!: stencil_row_mem simp: on_proc_def)
  have once: "d_nnz A ! ?k = min (n_local R) (1 + int (length (filter (on_proc R) (tl cols))))
          \<and> o_nnz A ! ?k = min (n_total R - n_local R)
                    (int (length (filter (\<lambda>c. \<not> on_proc R c) (tl cols))))"
    if "filter (\<lambda>e. fst e = row) (mat_rows A) = [(row, cols, vals)]" for cols vals
    using foldl_declare_row_once [OF that owned assms(6), of "(?z, ?z)"] k
    by (simp add: A(1,2) exact)
  have "int (card (local_nonzeros R (mat_rows A) row)) \<le> max 0 (n_local R)"
    by (rule card_local_nonzeros [OF Rf(4)])
  then have cl: "int (card (local_nonzeros R (mat_rows A) row)) \<le> n_local R"
    using nest(3) by simp
  have co: "int (card (remote_nonzeros R (mat_rows A) row)) \<le> n_total R - n_local R"
    using nest Rf(4) by (intro card_remote_nonzeros) simp_all
  have no: "0 \<le> n_total R - n_local R" using nest Rf(4) by simp
  from rel k have "min (n_local R) (0 + int (card (local_nonzeros R (mat_rows A) (i_lower R + int ?k))))
      \<le> fst nnz ! ?k"
    unfolding budget_rel_def fst_conv snd_conv by (metis length_replicate nth_replicate)
  then have "min (n_local R) (0 + int (card (local_nonzeros R (mat_rows A) row))) \<le> fst nnz ! ?k"
    unfolding rowk .
  then have d1: "int (card (local_nonzeros R (mat_rows A) row)) \<le> fst nnz ! ?k"
    using cl by linarith
  from rel k have "min (n_total R - n_local R)
        (0 + int (card (remote_nonzeros R (mat_rows A) (i_lower R + int ?k))))
      \<le> snd nnz ! ?k"
    unfolding budget_rel_def fst_conv snd_conv clamp by (metis length_replicate nth_replicate)
  then have "min (n_total R - n_local R)
        (0 + int (card (remote_nonzeros R (mat_rows A) row))) \<le> snd nnz ! ?k"
    unfolding rowk .
  then have o1: "int (card (remote_nonzeros R (mat_rows A) row)) \<le> snd nnz ! ?k"
    using co by linarith
  from rel have "(\<forall>idx < nat (n_local R). ?z ! idx \<le> n_local R)
      \<longrightarrow> (\<forall>idx < nat (n_local R). fst nnz ! idx \<le> n_local R)"
    unfolding budget_rel_def fst_conv snd_conv by simp
  then have d2: "fst nnz ! ?k \<le> n_local R" using k nest(3) by simp
  from rel have "(\<forall>idx < nat (n_local R). ?z ! idx \<le> n_total R - n_local R)
      \<longrightarrow> (\<forall>idx < nat (n_local R). snd nnz ! idx \<le> n_total R - n_local R)"
    unfolding budget_rel_def fst_conv snd_conv clamp by simp
  then have o2: "snd nnz ! ?k \<le> n_total R - n_local R" using k no by simp
  have pair: "(d_nnz A, o_nnz A) = foldl (declare_row R) (?z, ?z) (mat_rows A)"
    using exact by (simp add: A(1,2))
  show ?thesis
    using rows_eq pair once d1 d2 o1 o2 unfolding A(1,2) by blast
qed

lemma ex_laplace_run:
  "constructPatchLevelCCLaplaceOp False 2 1 ex_coefficients 1 [3, 3, 3] [ex_laplace_patch]
   = Inr ex_laplace_op"
  by code_simp

lemma ex_laplace_index_ranges:
  "determine_index_ranges [3, 3, 3] 1 = Inr ex_laplace_ranges"
  by code_simp

theorem laplace_budgets_suffice_witness:
  "d_nnz ex_laplace_op ! nat (4 - i_lower ex_laplace_ranges) = 3
   \<and> o_nnz ex_laplace_op ! nat (4 - i_lower ex_laplace_ranges) = 2
   \<and> int (card (local_nonzeros ex_laplace_ranges (mat_rows ex_laplace_op) 4))
     \<le> d_nnz ex_laplace_op ! nat (4 - i_lower ex_laplace_ranges)
   \<and> d_nnz ex_laplace_op ! nat (4 - i_lower ex_laplace_ranges) \<le> n_local ex_laplace_ranges
   \<and> int (card (remote_nonzeros ex_laplace_ranges (mat_rows ex_laplace_op) 4))
     \<le> o_nnz ex_laplace_op ! nat (4 - i_lower ex_laplace_ranges)
   \<and> o_nnz ex_laplace_op ! nat (4 - i_lower ex_laplace_ranges)
     \<le> n_total ex_laplace_ranges - n_local ex_laplace_ranges"
proof -
  have nn: "\<forall>c \<in> set [3, 3, 3 :: int]. 0 \<le> c" by simp
  have fits: "sum_list [3, 3, 3 :: int] < 2 ^ 31" by simp
  have dims: "\<forall>patch \<in> set [ex_laplace_patch]. length (lower (patch_box patch)) = 2"
    by (simp add: ex_laplace_patch_def)
  have lo: "i_lower ex_laplace_ranges \<le> 4" by (simp add: ex_laplace_ranges_def)
  have up: "4 < i_upper ex_laplace_ranges" by (simp add: ex_laplace_ranges_def)
  have once: "filter (\<lambda>e. fst e = 4) (mat_rows ex_laplace_op)
      = [(4, [4, 3, 5, 1, 7], [4, - 1, - 1, - 1, - 1])]"
    by (simp add: ex_laplace_op_def)
  have l: "min (n_local ex_laplace_ranges)
      (1 + int (length (filter (on_proc ex_laplace_ranges) (tl [4, 3, 5, 1, 7])))) = 3"
    by (simp add: ex_laplace_ranges_def on_proc_def)
  have r: "min (n_total ex_laplace_ranges - n_local ex_laplace_ranges)
      (int (length (filter (\<lambda>c. \<not> on_proc ex_laplace_ranges c) (tl [4, 3, 5, 1, 7])))) = 2"
    by (simp add: ex_laplace_ranges_def on_proc_def)
  note t = laplace_budgets_suffice [OF ex_laplace_run nn fits ex_laplace_index_ranges dims lo up]
  from t once have "d_nnz ex_laplace_op ! nat (4 - i_lower ex_laplace_ranges)
      = min (n_local ex_laplace_ranges)
          (1 + int (length (filter (on_proc ex_laplace_ranges) (tl [4, 3, 5, 1, 7]))))
    \<and> o_nnz ex_laplace_op ! nat (4 - i_lower ex_laplace_ranges)
      = min (n_total ex_laplace_ranges - n_local ex_laplace_ranges)
          (int (length (filter (\<lambda>c. \<not> on_proc ex_laplace_ranges c) (tl [4, 3, 5, 1, 7]))))"
    by blast
  then show ?thesis
    using t unfolding l r by blast
qed

end
